theory Spec2Isabelle
  imports Main
begin

section \<open>Strings of the source language\<close>

text \<open>
  A string of the source is a sequence of UTF-16 code units, and its \<open>length\<close> counts code
  units. A code unit is modelled as a natural number, a string as the list of its code units.
  The accented letters of the source texts are single code units (the source files are in
  composed normal form): for instance 237 is i-acute, 225 a-acute, 193 A-acute.
\<close>

type_synonym jschar = nat
type_synonym jsstring = "nat list"

definition js :: "string \<Rightarrow> jsstring" where
  "js s = map of_char s"

text \<open>White space and line terminators, as \<open>trim\<close> and the class \<open>\s\<close> understand them.\<close>

definition isSpace :: "jschar \<Rightarrow> bool" where
  "isSpace c = (c = 9 \<or> c = 10 \<or> c = 11 \<or> c = 12 \<or> c = 13 \<or> c = 32 \<or> c = 160 \<or> c = 5760
     \<or> (8192 \<le> c \<and> c \<le> 8202) \<or> c = 8232 \<or> c = 8233 \<or> c = 8239 \<or> c = 8287
     \<or> c = 12288 \<or> c = 65279)"

definition isDigit :: "jschar \<Rightarrow> bool" where
  "isDigit c = (48 \<le> c \<and> c \<le> 57)"

definition isWord :: "jschar \<Rightarrow> bool" where
  "isWord c = ((65 \<le> c \<and> c \<le> 90) \<or> (97 \<le> c \<and> c \<le> 122) \<or> isDigit c \<or> c = 95)"

definition isLineTerminator :: "jschar \<Rightarrow> bool" where
  "isLineTerminator c = (c = 10 \<or> c = 13 \<or> c = 8232 \<or> c = 8233)"

text \<open>
  Case mapping. The mapping is the one of the platform for the code units up to 255 (basic
  Latin and Latin-1); a code unit above 255 is left as it is, the full tables of the platform
  are not reproduced. The parser applies the mapping to text that a marker expression has
  confined to Latin-1 letters, digits and white space, or conjoins it with a test that admits
  nothing else. \<open>pdfCodes\<close> applies \<open>toUpperCase\<close> to the code of a law as it is given: there
  the model is that of the source for a code within Latin-1 only, as the codes of the index
  are, and nothing proved below reads the candidates of another code.
\<close>

definition upperUnit :: "jschar \<Rightarrow> jsstring" where
  "upperUnit c =
     (if 97 \<le> c \<and> c \<le> 122 then [c - 32]
      else if 224 \<le> c \<and> c \<le> 254 \<and> c \<noteq> 247 then [c - 32]
      else if c = 223 then [83, 83]
      else if c = 255 then [376]
      else if c = 181 then [924]
      else [c])"

definition lowerUnit :: "jschar \<Rightarrow> jschar" where
  "lowerUnit c =
     (if 65 \<le> c \<and> c \<le> 90 then c + 32
      else if 192 \<le> c \<and> c \<le> 222 \<and> c \<noteq> 215 then c + 32
      else c)"

definition toUpperCase :: "jsstring \<Rightarrow> jsstring" where
  "toUpperCase s = concat (map upperUnit s)"

definition toLowerCase :: "jsstring \<Rightarrow> jsstring" where
  "toLowerCase s = map lowerUnit s"

text \<open>\<open>trim\<close>, \<open>split('\n')\<close>, \<open>join('\n')\<close>, \<open>includes\<close>, \<open>startsWith\<close>.\<close>

fun trimEnd :: "jsstring \<Rightarrow> jsstring" where
  "trimEnd [] = []"
| "trimEnd (c # cs) = (case trimEnd cs of [] \<Rightarrow> (if isSpace c then [] else [c]) | d # ds \<Rightarrow> c # d # ds)"

definition trim :: "jsstring \<Rightarrow> jsstring" where
  "trim s = trimEnd (dropWhile isSpace s)"

fun splitNL :: "jsstring \<Rightarrow> jsstring list" where
  "splitNL [] = [[]]"
| "splitNL (c # cs) =
     (if c = 10 then [] # splitNL cs
      else (case splitNL cs of [] \<Rightarrow> [[c]] | l # ls \<Rightarrow> (c # l) # ls))"

fun joinNL :: "jsstring list \<Rightarrow> jsstring" where
  "joinNL [] = []"
| "joinNL [l] = l"
| "joinNL (l # m # ls) = l @ 10 # joinNL (m # ls)"

fun startsWith :: "jsstring \<Rightarrow> jsstring \<Rightarrow> bool" where
  "startsWith s [] = True"
| "startsWith [] (p # ps) = False"
| "startsWith (c # cs) (p # ps) = (c = p \<and> startsWith cs ps)"

fun includesStr :: "jsstring \<Rightarrow> jsstring \<Rightarrow> bool" where
  "includesStr [] p = (p = [])"
| "includesStr (c # cs) p = (startsWith (c # cs) p \<or> includesStr cs p)"

text \<open>The decimal numeral of a natural number, as string interpolation prints it.\<close>

fun decimal :: "nat \<Rightarrow> jsstring" where
  "decimal n = (if n < 10 then [48 + n] else decimal (n div 10) @ [48 + n mod 10])"

declare decimal.simps [simp del]

section \<open>Regular expressions\<close>

text \<open>
  The expressions of the source are written as terms of the type \<open>re\<close> and run by a
  backtracking matcher with the priorities of the source language: an alternative tries its
  left branch first, a greedy quantifier tries one more iteration before it tries to stop, a
  lazy one the other way round, and an iteration that consumes nothing is rejected. The flag
  \<open>ic\<close> is the flag \<open>i\<close>.
\<close>

definition canon :: "jschar \<Rightarrow> jschar" where
  "canon c = (case upperUnit c of [u] \<Rightarrow> (if 128 \<le> c \<and> u < 128 then c else u) | _ \<Rightarrow> c)"

definition eqc :: "bool \<Rightarrow> jschar \<Rightarrow> jschar \<Rightarrow> bool" where
  "eqc ic a c = (if ic then canon a = canon c else a = c)"

datatype citem = Ch jschar | Rg jschar jschar | Sp | Dg | Wd

fun inItem :: "bool \<Rightarrow> jschar \<Rightarrow> citem \<Rightarrow> bool" where
  "inItem ic c (Ch a) = eqc ic a c"
| "inItem ic c (Rg a b) =
     (if ic then list_ex (\<lambda>m. canon m = canon c) [a..<Suc b] else a \<le> c \<and> c \<le> b)"
| "inItem ic c Sp = isSpace c"
| "inItem ic c Dg = isDigit c"
| "inItem ic c Wd = isWord c"

definition inSet :: "bool \<Rightarrow> bool \<Rightarrow> citem list \<Rightarrow> jschar \<Rightarrow> bool" where
  "inSet ic neg items c = (list_ex (inItem ic c) items \<noteq> neg)"

text \<open>
  \<open>Lit s\<close> is the text \<open>s\<close>; \<open>Cls False items\<close> is a class \<open>[...]\<close> and \<open>Cls True items\<close>
  its complement \<open>[^...]\<close>; \<open>Dot\<close> is \<open>.\<close>; \<open>Opt r\<close> is \<open>r?\<close>; \<open>Star True r\<close> is \<open>r*\<close> and
  \<open>Star False r\<close> is \<open>r*?\<close>; \<open>Grp i r\<close> is the capturing group number \<open>i\<close>; \<open>Bol\<close>, \<open>Eol\<close>
  and \<open>WordB\<close> are \<open>^\<close>, \<open>$\<close> (without the flag \<open>m\<close>) and \<open>\b\<close>.
\<close>

datatype re =
    Lit jsstring
  | Cls bool "citem list"
  | Dot
  | Cat re re
  | Alt re re
  | Opt re
  | Star bool re
  | Grp nat re
  | Bol
  | Eol
  | WordB

text \<open>
  The matcher works on a stack of pending items: expressions still to match, the check that
  an iteration of a quantifier has consumed something, and the end of a capturing group. Its
  state is the index reached, the code unit before it, the input left and the captures.
\<close>

datatype item = R re | IterI nat bool re | CloseI nat nat jsstring

record mst =
  pos :: nat
  prev :: "jschar option"
  rest :: jsstring
  caps :: "(nat \<times> jsstring) list"

fun wr :: "re \<Rightarrow> nat" where
  "wr (Lit s) = 1"
| "wr (Cls n cs) = 1"
| "wr Dot = 1"
| "wr (Cat a b) = wr a + wr b + 1"
| "wr (Alt a b) = wr a + wr b + 1"
| "wr (Opt a) = wr a + 1"
| "wr (Star g a) = wr a + 2"
| "wr (Grp i a) = wr a + 2"
| "wr Bol = 1"
| "wr Eol = 1"
| "wr WordB = 1"

fun wi :: "nat \<Rightarrow> item \<Rightarrow> nat" where
  "wi l (R r) = wr r"
| "wi l (IterI n g a) = (if l < n then wr a + 3 else 0)"
| "wi l (CloseI i p s) = 1"

definition step :: "mst \<Rightarrow> jschar \<Rightarrow> jsstring \<Rightarrow> mst" where
  "step st c cs = st\<lparr>pos := pos st + 1, prev := Some c, rest := cs\<rparr>"

function run :: "bool \<Rightarrow> item list \<Rightarrow> mst \<Rightarrow> mst option" where
  "run ic [] st = Some st"
| "run ic (R (Lit []) # k) st = run ic k st"
| "run ic (R (Lit (a # as)) # k) st =
     (case rest st of [] \<Rightarrow> None
      | c # cs \<Rightarrow> if eqc ic a c then run ic (R (Lit as) # k) (step st c cs) else None)"
| "run ic (R (Cls n items) # k) st =
     (case rest st of [] \<Rightarrow> None
      | c # cs \<Rightarrow> if inSet ic n items c then run ic k (step st c cs) else None)"
| "run ic (R Dot # k) st =
     (case rest st of [] \<Rightarrow> None
      | c # cs \<Rightarrow> if isLineTerminator c then None else run ic k (step st c cs))"
| "run ic (R (Cat a b) # k) st = run ic (R a # R b # k) st"
| "run ic (R (Alt a b) # k) st =
     (case run ic (R a # k) st of Some m \<Rightarrow> Some m | None \<Rightarrow> run ic (R b # k) st)"
| "run ic (R (Opt a) # k) st =
     (case run ic (R a # k) st of Some m \<Rightarrow> Some m | None \<Rightarrow> run ic k st)"
| "run ic (R (Star g a) # k) st =
     (if g then
        (case run ic (R a # IterI (length (rest st)) g a # k) st of
           Some m \<Rightarrow> Some m | None \<Rightarrow> run ic k st)
      else
        (case run ic k st of
           Some m \<Rightarrow> Some m | None \<Rightarrow> run ic (R a # IterI (length (rest st)) g a # k) st))"
| "run ic (IterI n g a # k) st =
     (if length (rest st) < n then run ic (R (Star g a) # k) st else None)"
| "run ic (R (Grp i a) # k) st = run ic (R a # CloseI i (pos st) (rest st) # k) st"
| "run ic (CloseI i p s # k) st =
     run ic k (st\<lparr>caps := (i, take (pos st - p) s) # caps st\<rparr>)"
| "run ic (R Bol # k) st = (if prev st = None then run ic k st else None)"
| "run ic (R Eol # k) st = (if rest st = [] then run ic k st else None)"
| "run ic (R WordB # k) st =
     (if (case prev st of None \<Rightarrow> False | Some c \<Rightarrow> isWord c)
         \<noteq> (case rest st of [] \<Rightarrow> False | c # cs \<Rightarrow> isWord c)
      then run ic k st else None)"
  by pat_completeness auto
termination
  by (relation "inv_image (less_than <*lex*> less_than)
        (\<lambda>(ic, k, st). (length (rest st), sum_list (map (wi (length (rest st))) k)))")
     (auto simp: step_def)

text \<open>
  The first match at or after an index, as \<open>exec\<close>, \<open>test\<close>, \<open>match\<close> and \<open>search\<close> look
  for it: the start indices are tried from left to right. The result is the index where the
  match starts and the state where it ends.
\<close>

fun searchFrom :: "bool \<Rightarrow> re \<Rightarrow> nat \<Rightarrow> jschar option \<Rightarrow> jsstring \<Rightarrow> (nat \<times> mst) option" where
  "searchFrom ic r p pv [] =
     (case run ic [R r] \<lparr>pos = p, prev = pv, rest = [], caps = []\<rparr> of
        Some m \<Rightarrow> Some (p, m) | None \<Rightarrow> None)"
| "searchFrom ic r p pv (c # cs) =
     (case run ic [R r] \<lparr>pos = p, prev = pv, rest = c # cs, caps = []\<rparr> of
        Some m \<Rightarrow> Some (p, m) | None \<Rightarrow> searchFrom ic r (p + 1) (Some c) cs)"

definition exec :: "bool \<Rightarrow> re \<Rightarrow> jsstring \<Rightarrow> (nat \<times> mst) option" where
  "exec ic r s = searchFrom ic r 0 None s"

definition test :: "bool \<Rightarrow> re \<Rightarrow> jsstring \<Rightarrow> bool" where
  "test ic r s = (exec ic r s \<noteq> None)"

definition search :: "bool \<Rightarrow> re \<Rightarrow> jsstring \<Rightarrow> nat option" where
  "search ic r s = map_option fst (exec ic r s)"

text \<open>The text of group \<open>i\<close> of a match; \<open>None\<close> is \<open>undefined\<close>.\<close>

definition grp :: "mst \<Rightarrow> nat \<Rightarrow> jsstring option" where
  "grp m i = map_of (caps m) i"

definition grpOr :: "mst \<Rightarrow> nat \<Rightarrow> jsstring" where
  "grpOr m i = (case grp m i of None \<Rightarrow> [] | Some s \<Rightarrow> s)"

text \<open>
  \<open>s.replace(r, f)\<close> for an expression with the flag \<open>g\<close>: every match, from left to right,
  is replaced by \<open>f\<close> of the match; after a match the search goes on where the match ended,
  and after an empty match one code unit further.
\<close>

fun replaceFrom :: "bool \<Rightarrow> re \<Rightarrow> (mst \<Rightarrow> jsstring) \<Rightarrow> nat \<Rightarrow> jschar option \<Rightarrow> jsstring \<Rightarrow> jsstring" where
  "replaceFrom ic r f p pv [] =
     (case run ic [R r] \<lparr>pos = p, prev = pv, rest = [], caps = []\<rparr> of
        Some m \<Rightarrow> f m | None \<Rightarrow> [])"
| "replaceFrom ic r f p pv (c # cs) =
     (case run ic [R r] \<lparr>pos = p, prev = pv, rest = c # cs, caps = []\<rparr> of
        None \<Rightarrow> c # replaceFrom ic r f (p + 1) (Some c) cs
      | Some m \<Rightarrow>
          if p < pos m
          then f m @ replaceFrom ic r f (pos m) (prev m) (drop (pos m - p - 1) cs)
          else f m @ c # replaceFrom ic r f (p + 1) (Some c) cs)"

definition replaceAll :: "bool \<Rightarrow> re \<Rightarrow> (mst \<Rightarrow> jsstring) \<Rightarrow> jsstring \<Rightarrow> jsstring" where
  "replaceAll ic r f s = replaceFrom ic r f 0 None s"

text \<open>\<open>s.replace(r, t)\<close> for an expression without the flag \<open>g\<close>: the first match only.\<close>

definition replaceFirst :: "bool \<Rightarrow> re \<Rightarrow> jsstring \<Rightarrow> jsstring \<Rightarrow> jsstring" where
  "replaceFirst ic r t s =
     (case exec ic r s of None \<Rightarrow> s
      | Some (i, m) \<Rightarrow> take i s @ t @ drop (pos m) s)"

text \<open>
  The loop \<open>while ((m = r.exec(s)) !== null)\<close> over an expression with the flag \<open>g\<close>: all
  matches from left to right, each search starting where the match before ended. Every
  expression the source runs in such a loop contains a mandatory character, so a match is
  never empty; an empty match, on which the source would not advance, ends the list here.
\<close>

fun execFrom :: "bool \<Rightarrow> re \<Rightarrow> nat \<Rightarrow> jschar option \<Rightarrow> jsstring \<Rightarrow> (nat \<times> mst) list" where
  "execFrom ic r p pv [] = []"
| "execFrom ic r p pv (c # cs) =
     (case run ic [R r] \<lparr>pos = p, prev = pv, rest = c # cs, caps = []\<rparr> of
        None \<Rightarrow> execFrom ic r (p + 1) (Some c) cs
      | Some m \<Rightarrow>
          if p < pos m
          then (p, m) # execFrom ic r (pos m) (prev m) (drop (pos m - p - 1) cs)
          else [])"

definition execAll :: "bool \<Rightarrow> re \<Rightarrow> jsstring \<Rightarrow> (nat \<times> mst) list" where
  "execAll ic r s = execFrom ic r 0 None s"

text \<open>Shorthands for writing expressions.\<close>

fun catL :: "re list \<Rightarrow> re" where
  "catL [] = Lit []"
| "catL [a] = a"
| "catL (a # b # bs) = Cat a (catL (b # bs))"

fun altL :: "re list \<Rightarrow> re" where
  "altL [] = Lit []"
| "altL [a] = a"
| "altL (a # b # bs) = Alt a (altL (b # bs))"

definition plusR :: "re \<Rightarrow> re" where
  "plusR a = Cat a (Star True a)"

definition ws :: re where
  "ws = Star True (Cls False [Sp])"

definition ws1 :: re where
  "ws1 = plusR (Cls False [Sp])"

definition word :: "string \<Rightarrow> re" where
  "word s = Lit (js s)"

section \<open>The parser: data\<close>

datatype law_status = in_force | amended | repealed | not_yet_in_force

record LawIndexEntry =
  law_id :: jsstring
  law_code :: jsstring
  law_title :: jsstring
  titleEn :: "jsstring option"
  shortName :: jsstring
  law_status :: law_status
  issuedDate :: jsstring
  inForceDate :: jsstring
  law_url :: jsstring
  pdfUrl :: "jsstring option"
  docUrl :: "jsstring option"
  law_description :: "jsstring option"

record ParsedProvision =
  provision_ref :: jsstring
  p_chapter :: "jsstring option"
  p_section :: jsstring
  p_title :: jsstring
  p_content :: jsstring

record ParsedDefinition =
  def_term :: jsstring
  def_text :: jsstring
  source_provision :: "jsstring option"

record ParsedLaw =
  doc_id :: jsstring
  doc_title :: jsstring
  title_en :: "jsstring option"
  short_name :: jsstring
  doc_status :: law_status
  issued_date :: jsstring
  in_force_date :: jsstring
  doc_url :: jsstring
  doc_description :: "jsstring option"
  provisions :: "ParsedProvision list"
  definitions :: "ParsedDefinition list"

text \<open>
  The field \<open>type\<close> of a parsed law is the constant \<open>'statute'\<close> and is left out. An optional
  field is an \<open>option\<close>; \<open>a ?? b\<close> is \<open>orDefault a b\<close>.
\<close>

definition orDefault :: "'a option \<Rightarrow> 'a \<Rightarrow> 'a" where
  "orDefault a b = (case a of None \<Rightarrow> b | Some x \<Rightarrow> x)"

definition slice :: "'a list \<Rightarrow> nat \<Rightarrow> nat \<Rightarrow> 'a list" where
  "slice xs a b = take (b - a) (drop a xs)"

section \<open>The parser: expressions shared by the markup and the text variant\<close>

definition iI :: re where "iI = Cls False [Ch 105, Ch 237]"
definition oO :: re where "oO = Cls False [Ch 111, Ch 243]"
definition eE :: re where "eE = Cls False [Ch 69, Ch 201]"
definition digit :: re where "digit = Cls False [Dg]"
definition dotDash :: re where "dotDash = Cls False [Ch 46, Ch 45]"

text \<open>\<open>Art[i\'i]culo\<close>, with 237 for the accented letter.\<close>

definition articuloRe :: re where
  "articuloRe = catL [word ''Art'', iI, word ''culo'']"

text \<open>
  The label of an article:
  \<open>[\d]+(?:\s*(?:Bis|Ter|Qu[a\'a]ter|Quintus|Sextus|Septimus)\s*\d*)?(?:\s*[oa]\.?)?\<close>
\<close>

definition articleNumRe :: re where
  "articleNumRe =
     catL [plusR digit,
           Opt (catL [ws,
                      altL [word ''Bis'', word ''Ter'',
                            catL [word ''Qu'', Cls False [Ch 97, Ch 225], word ''ter''],
                            word ''Quintus'', word ''Sextus'', word ''Septimus''],
                      ws, Star True digit]),
           Opt (catL [ws, Cls False [Ch 111, Ch 97], Opt (word ''.'')])]"

text \<open>\<open>/(\d+)\s*[oa]\.?/g\<close>\<close>

definition ordinalRe :: re where
  "ordinalRe = catL [Grp 1 (plusR digit), ws, Cls False [Ch 111, Ch 97], Opt (word ''.'')]"

definition normalizeArticleRef :: "jsstring \<Rightarrow> jsstring" where
  "normalizeArticleRef raw =
     (let ref0 = trim (toLowerCase raw);
          ref1 = replaceAll False ordinalRe (\<lambda>m. grpOr m 1) ref0;
          ref2 = replaceAll False ws1 (\<lambda>m. []) ref1
      in if startsWith ref2 (js ''art'') then ref2 else js ''art'' @ ref2)"

text \<open>
  The cue of a defining article,
  \<open>/se\s+(?:entender[\'aa]|entiende)\s+por|Para\s+(?:los\s+)?efectos\s+de/i\<close>,
  the enumerated definition \<open>/([IVXLC]+)\.\s*([^:]+):\s*([^;]+(?:;|$))/g\<close>, and \<open>/;$/\<close>.
\<close>

definition cueRe :: re where
  "cueRe =
     Alt (catL [word ''se'', ws1,
                Alt (catL [word ''entender'', Cls False [Ch 225, Ch 97]]) (word ''entiende''),
                ws1, word ''por''])
         (catL [word ''Para'', ws1, Opt (catL [word ''los'', ws1]), word ''efectos'', ws1, word ''de''])"

definition defRe :: re where
  "defRe =
     catL [Grp 1 (plusR (Cls False [Ch 73, Ch 86, Ch 88, Ch 76, Ch 67])), word ''.'', ws,
           Grp 2 (plusR (Cls True [Ch 58])), word '':'', ws,
           Grp 3 (catL [plusR (Cls True [Ch 59]), Alt (word '';'') Eol])]"

definition semiEndRe :: re where
  "semiEndRe = Cat (word '';'') Eol"

text \<open>
  The definitions of one article: \<open>definitionOf\<close> is the body of the loop over the matches
  of the enumerated definition, \<open>definitionsIn\<close> the loop, and \<open>extractDefinitions\<close> the
  loop under the test for the cue. Both variants of the extractor contain the same lines.
\<close>

definition definitionOf :: "jsstring \<Rightarrow> mst \<Rightarrow> ParsedDefinition list" where
  "definitionOf ref m =
     (let term = trim (grpOr m 2);
          d = trim (replaceFirst False semiEndRe [] (trim (grpOr m 3)))
      in if 2 < length term \<and> length term < 100 \<and> 5 < length d
         then [\<lparr>def_term = term, def_text = term @ js '': '' @ d, source_provision = Some ref\<rparr>]
         else [])"

definition definitionsIn :: "jsstring \<Rightarrow> jsstring \<Rightarrow> ParsedDefinition list" where
  "definitionsIn text ref = concat (map (\<lambda>im. definitionOf ref (snd im)) (execAll False defRe text))"

definition extractDefinitions :: "jsstring \<Rightarrow> jsstring \<Rightarrow> ParsedDefinition list" where
  "extractDefinitions text ref = (if test True cueRe text then definitionsIn text ref else [])"

section \<open>The parser: plain text\<close>

text \<open>The expressions of \<open>cleanPdfText\<close>, in the order of the source.\<close>

definition camaraRe :: re where
  "camaraRe = catL [Bol, Lit (js ''C'' @ [193] @ js ''MARA DE DIPUTADOS'')]"

definition secretariaRe :: re where
  "secretariaRe =
     catL [Bol, word ''Secretar'', iI, word ''a'', ws1,
           Grp 1 (Alt (word ''General'')
                      (catL [word ''de'', ws1, word ''Servicios'', ws1, word ''Parlamentarios'']))]"

definition ultimaReformaRe :: re where
  "ultimaReformaRe = catL [Bol, Lit ([218] @ js ''ltima''), ws1, word ''Reforma'', ws1, word ''DOF'']"

definition digits14 :: re where
  "digits14 = Cat digit (Opt (Cat digit (Opt (Cat digit (Opt digit)))))"

definition pageNumberRe :: re where
  "pageNumberRe = catL [Bol, digits14, ws1, word ''de'', ws1, digits14, Eol]"

definition seccionRe :: re where
  "seccionRe = catL [word ''Secci'', oO, word ''n'']"

definition reformNoteRe :: re where
  "reformNoteRe =
     catL [Bol,
           altL [Lit (js ''P'' @ [225] @ js ''rrafo''), articuloRe,
                 Lit (js ''Fracci'' @ [243] @ js ''n''), word ''Inciso'', word ''Numeral'',
                 word ''Apartado'', word ''Base'', seccionRe],
           ws1,
           altL [word ''reformad'', word ''adicionad'', word ''derogad'', word ''abrogad'',
                 word ''publicad'']]"

definition denominacionRe :: re where
  "denominacionRe =
     catL [Bol, word ''Denominaci'', oO, word ''n'', ws1,
           Opt (altL [word ''del'', catL [word ''de'', ws1, word ''la''],
                      catL [word ''de'', ws1, word ''los'']]),
           ws,
           altL [catL [word ''Cap'', iI, word ''tulo''], catL [word ''T'', iI, word ''tulo''],
                 seccionRe],
           ws1,
           altL [word ''reformad'', word ''adicionad'']]"

definition erratasRe :: re where
  "erratasRe =
     catL [Bol,
           Alt (catL [word ''Fe'', ws1, word ''de'', ws1, word ''erratas''])
               (catL [word ''Nota'', ws1, word ''de'', ws1, word ''vigencia'']),
           WordB]"

definition parenNoteRe :: re where
  "parenNoteRe =
     catL [Bol, word ''('',
           altL [word ''Reformad'', word ''Adicionad'', word ''Derogad'', word ''Abrogad'']]"

text \<open>\<open>/^[A-Z...\s,.\-()]+$/\<close>, the capital letters being A to Z and seven accented ones.\<close>

definition capsRe :: re where
  "capsRe =
     catL [Bol,
           plusR (Cls False [Rg 65 90, Ch 193, Ch 201, Ch 205, Ch 211, Ch 218, Ch 209, Ch 220,
                            Sp, Ch 44, Ch 46, Ch 45, Ch 40, Ch 41]),
           Eol]"

text \<open>\<open>/\n{4,}/g\<close>\<close>

definition blankRunRe :: re where
  "blankRunRe = Cat (Lit [10, 10, 10, 10]) (Star True (Cls False [Ch 10]))"

definition skipLine :: "jsstring \<Rightarrow> bool" where
  "skipLine trimmed =
     (test True camaraRe trimmed \<or> test True secretariaRe trimmed
      \<or> test True ultimaReformaRe trimmed \<or> test False pageNumberRe trimmed
      \<or> test True reformNoteRe trimmed \<or> test True denominacionRe trimmed
      \<or> test True erratasRe trimmed \<or> test True parenNoteRe trimmed)"

fun cleanLines :: "jsstring list \<Rightarrow> jsstring list" where
  "cleanLines [] = []"
| "cleanLines (line # ls) =
     (if trim line = [] then [] # cleanLines ls
      else if skipLine (trim line) then cleanLines ls
      else line # cleanLines ls)"

definition isCapsLine :: "jsstring \<Rightarrow> bool" where
  "isCapsLine t = (20 < length t \<and> t = toUpperCase t \<and> test False capsRe t)"

text \<open>
  \<open>capsLineCount\<close> is an object used as a table from lines to counts; its entries are
  enumerated in the order of insertion, so it is an association list.
\<close>

fun bumpCount :: "(jsstring \<times> nat) list \<Rightarrow> jsstring \<Rightarrow> (jsstring \<times> nat) list" where
  "bumpCount [] k = [(k, 1)]"
| "bumpCount ((k', n) # m) k = (if k' = k then (k', n + 1) # m else (k', n) # bumpCount m k)"

fun capsLineCount :: "(jsstring \<times> nat) list \<Rightarrow> jsstring list \<Rightarrow> (jsstring \<times> nat) list" where
  "capsLineCount m [] = m"
| "capsLineCount m (line # ls) =
     capsLineCount (if isCapsLine (trim line) then bumpCount m (trim line) else m) ls"

fun removeRepeated :: "jsstring \<Rightarrow> (jsstring \<times> nat) list \<Rightarrow> jsstring" where
  "removeRepeated result [] = result"
| "removeRepeated result ((capsLine, count) # es) =
     removeRepeated
       (if 5 \<le> count then joinNL (filter (\<lambda>l. trim l \<noteq> capsLine) (splitNL result)) else result)
       es"

definition cleanPdfText :: "jsstring \<Rightarrow> jsstring" where
  "cleanPdfText text =
     (let cleaned = cleanLines (splitNL text);
          result = removeRepeated (joinNL cleaned) (capsLineCount [] cleaned)
      in replaceAll False blankRunRe (\<lambda>m. [10, 10, 10]) result)"

text \<open>The expressions of \<open>extractArticlesFromText\<close>.\<close>

definition articleStartRe :: re where
  "articleStartRe = catL [Bol, ws, articuloRe, ws1, Grp 1 articleNumRe, ws, dotDash]"

definition headingWordRe :: re where
  "headingWordRe =
     altL [catL [word ''T'', Cls False [Ch 73, Ch 205], word ''TULO''],
           catL [word ''CAP'', Cls False [Ch 73, Ch 205], word ''TULO''],
           catL [word ''SECCI'', Cls False [Ch 79, Ch 211], word ''N'']]"

definition chapterRe :: re where
  "chapterRe = catL [Bol, ws, Grp 1 headingWordRe, ws1, Grp 2 (plusR Dot)]"

definition transitoriosWordRe :: re where
  "transitoriosWordRe =
     Alt (catL [word ''TRANSITORIO'', Opt (word ''S'')])
         (catL [word ''ART'', Cls False [Ch 73, Ch 205], word ''CULO'', Opt (word ''S''), ws1,
                word ''TRANSITORIO'', Opt (word ''S'')])"

definition transitoryRe :: re where
  "transitoryRe = catL [Bol, ws, Grp 1 transitoriosWordRe, ws, Eol]"

text \<open>\<open>/\n\s*\n\s*\n/g\<close> and \<open>/[ \t]{3,}/g\<close>\<close>

definition tripleNewlineRe :: re where
  "tripleNewlineRe = catL [Lit [10], ws, Lit [10], ws, Lit [10]]"

definition blanksRe :: re where
  "blanksRe =
     catL [Cls False [Ch 32, Ch 9], Cls False [Ch 32, Ch 9], Cls False [Ch 32, Ch 9],
           Star True (Cls False [Ch 32, Ch 9])]"

text \<open>\<open>/^Art[i\'i]culo\s+[\d\w\s.]+[\.\-]\s*([^.\n]+\.)/i\<close>\<close>

definition titleRe :: re where
  "titleRe =
     catL [Bol, articuloRe, ws1, plusR (Cls False [Dg, Wd, Sp, Ch 46]), dotDash, ws,
           Grp 1 (catL [plusR (Cls True [Ch 46, Ch 10]), word ''.''])]"

record ArticleBlock =
  num :: jsstring
  startLine :: nat
  blk_chapter :: jsstring

text \<open>
  The first loop of \<open>extractArticlesFromText\<close>. \<open>transitoryStart\<close> is \<open>None\<close> where the
  source holds \<open>-1\<close>.
\<close>

record scan =
  currentChapter :: jsstring
  transitoryStart :: "nat option"
  articleBlocks :: "ArticleBlock list"

definition scanLine :: "nat \<Rightarrow> jsstring \<Rightarrow> scan \<Rightarrow> scan" where
  "scanLine i line st =
     (case exec True chapterRe line of
        Some im \<Rightarrow>
          st\<lparr>currentChapter :=
               take 200 (toUpperCase (grpOr (snd im) 1) @ [32] @ trim (grpOr (snd im) 2))\<rparr>
      | None \<Rightarrow>
          if test True transitoryRe line then st\<lparr>transitoryStart := Some i\<rparr>
          else (case transitoryStart st of
                  Some t \<Rightarrow> st
                | None \<Rightarrow>
                    (case exec True articleStartRe line of
                       None \<Rightarrow> st
                     | Some im \<Rightarrow>
                         st\<lparr>articleBlocks := articleBlocks st @
                              [\<lparr>num = trim (grpOr (snd im) 1), startLine = i,
                                blk_chapter = currentChapter st\<rparr>]\<rparr>)))"

fun scanLines :: "nat \<Rightarrow> jsstring list \<Rightarrow> scan \<Rightarrow> scan" where
  "scanLines i [] st = st"
| "scanLines i (line # ls) st = scanLines (i + 1) ls (scanLine i line st)"

definition articleText :: "jsstring list \<Rightarrow> nat \<Rightarrow> nat \<Rightarrow> jsstring" where
  "articleText lines a b =
     (let t0 = trim (joinNL (slice lines a b));
          t1 = replaceAll False tripleNewlineRe (\<lambda>m. [10, 10]) t0;
          t2 = trim (replaceAll False blanksRe (\<lambda>m. [32, 32]) t1)
      in take 8000 t2)"

definition articleTitle :: "re \<Rightarrow> jsstring \<Rightarrow> jsstring" where
  "articleTitle r text =
     (case exec True r text of None \<Rightarrow> []
      | Some im \<Rightarrow> take 120 (trim (grpOr (snd im) 1)))"

definition sectionNum :: "jsstring \<Rightarrow> jsstring" where
  "sectionNum n = trim (replaceAll False ws1 (\<lambda>m. [32]) n)"

definition provisionOf :: "re \<Rightarrow> jsstring \<Rightarrow> jsstring \<Rightarrow> jsstring \<Rightarrow> ParsedProvision" where
  "provisionOf tr n ch text =
     \<lparr>provision_ref = normalizeArticleRef n,
      p_chapter = (if ch = [] then None else Some ch),
      p_section = sectionNum n,
      p_title = articleTitle tr text,
      p_content = text\<rparr>"

text \<open>The second loop of \<open>extractArticlesFromText\<close>; \<open>fin\<close> is the end of the last article.\<close>

fun buildArticles :: "jsstring list \<Rightarrow> nat \<Rightarrow> ArticleBlock list
    \<Rightarrow> ParsedProvision list \<times> ParsedDefinition list" where
  "buildArticles lines fin [] = ([], [])"
| "buildArticles lines fin (b # bs) =
     (let endLine = (case bs of [] \<Rightarrow> fin | b' # bs' \<Rightarrow> startLine b');
          text = articleText lines (startLine b) endLine;
          more = buildArticles lines fin bs
      in if length text < 15 then more
         else (provisionOf titleRe (num b) (blk_chapter b) text # fst more,
               extractDefinitions text (normalizeArticleRef (num b)) @ snd more))"

definition extractArticlesFromText :: "jsstring
    \<Rightarrow> ParsedProvision list \<times> ParsedDefinition list" where
  "extractArticlesFromText text =
     (let lines = splitNL text;
          sc = scanLines 0 lines \<lparr>currentChapter = [], transitoryStart = None, articleBlocks = []\<rparr>
      in buildArticles lines (case transitoryStart sc of None \<Rightarrow> length lines | Some t \<Rightarrow> t)
           (articleBlocks sc))"

text \<open>The expressions of \<open>extractTransitoryFromText\<close>.\<close>

definition transitorySectionRe :: re where
  "transitorySectionRe = catL [Lit [10], ws, Grp 1 transitoriosWordRe, ws, Lit [10]]"

definition ordinalWordRe :: re where
  "ordinalWordRe =
     altL [word ''PRIMERO'', word ''SEGUNDO'', word ''TERCERO'', word ''CUARTO'', word ''QUINTO'',
           word ''SEXTO'', catL [word ''S'', eE, word ''PTIMO''], word ''OCTAVO'', word ''NOVENO'',
           catL [word ''D'', eE, word ''CIMO''], catL [Cls False [Ch 218, Ch 85], word ''NICO'']]"

definition transRe :: re where
  "transRe = catL [Bol, ws, Opt (catL [articuloRe, ws1]), ordinalWordRe, ws, dotDash]"

fun transPositions :: "nat \<Rightarrow> jsstring list \<Rightarrow> (jsstring \<times> nat) list" where
  "transPositions i [] = []"
| "transPositions i (line # ls) =
     (if test True transRe line then [(take 80 (trim line), i)] else []) @ transPositions (i + 1) ls"

definition transitoryOf :: "nat \<Rightarrow> jsstring \<Rightarrow> jsstring \<Rightarrow> ParsedProvision" where
  "transitoryOf i label text =
     \<lparr>provision_ref = js ''trans'' @ decimal (i + 1),
      p_chapter = Some (js ''TRANSITORIOS''),
      p_section = js ''Transitorio '' @ decimal (i + 1),
      p_title = label,
      p_content = take 8000 text\<rparr>"

fun buildTransitory :: "jsstring list \<Rightarrow> nat \<Rightarrow> (jsstring \<times> nat) list \<Rightarrow> ParsedProvision list" where
  "buildTransitory lines i [] = []"
| "buildTransitory lines i (p # ps) =
     (if i < 20
      then (let endIdx = (case ps of [] \<Rightarrow> length lines | q # qs \<Rightarrow> snd q);
                content = trim (joinNL (slice lines (snd p) endIdx))
            in (if length content < 15 then [] else [transitoryOf i (fst p) content])
               @ buildTransitory lines (i + 1) ps)
      else [])"

definition extractTransitoryFromText :: "jsstring \<Rightarrow> ParsedProvision list" where
  "extractTransitoryFromText text =
     (case search True transitorySectionRe text of
        None \<Rightarrow> []
      | Some transitoryIdx \<Rightarrow>
          (let lines = splitNL (drop transitoryIdx text)
           in buildTransitory lines 0 (transPositions 0 lines)))"

definition emptyLaw :: "LawIndexEntry \<Rightarrow> ParsedLaw" where
  "emptyLaw law =
     \<lparr>doc_id = law_id law, doc_title = law_title law, title_en = titleEn law,
      short_name = shortName law, doc_status = law_status law, issued_date = issuedDate law,
      in_force_date = inForceDate law, doc_url = law_url law,
      doc_description = Some (orDefault (law_description law) (law_title law)),
      provisions = [], definitions = []\<rparr>"

definition parseMexicanText :: "jsstring \<Rightarrow> LawIndexEntry \<Rightarrow> ParsedLaw" where
  "parseMexicanText text law =
     (if length text < 200 then emptyLaw law
      else (let cleanedText = cleanPdfText text;
                pd = extractArticlesFromText cleanedText;
                transitoryProvisions = extractTransitoryFromText cleanedText
            in \<lparr>doc_id = law_id law, doc_title = law_title law, title_en = titleEn law,
                short_name = shortName law, doc_status = law_status law,
                issued_date = issuedDate law, in_force_date = inForceDate law,
                doc_url = law_url law,
                doc_description = Some (orDefault (law_description law) (law_title law)),
                provisions = fst pd @ transitoryProvisions, definitions = snd pd\<rparr>))"

section \<open>The parser: markup\<close>

text \<open>
  \<open>stripHtml\<close>: line breaks, tags, the entities in the order of the source, runs of white
  space, \<open>trim\<close>. 34 and 39 are the two quotation marks.
\<close>

definition brRe :: re where
  "brRe = catL [word ''<br'', ws, Opt (word ''/''), word ''>'']"

definition tagRe :: re where
  "tagRe = catL [word ''<'', plusR (Cls True [Ch 62]), word ''>'']"

definition entities :: "(jsstring \<times> jsstring) list" where
  "entities =
     [(js ''&nbsp;'', [32]), (js ''&#x00A0;'', [32]), (js ''&#160;'', [32]), (js ''&amp;'', [38]),
      (js ''&lt;'', [60]), (js ''&gt;'', [62]), (js ''&quot;'', [34]), (js ''&#39;'', [39]),
      (js ''&aacute;'', [225]), (js ''&eacute;'', [233]), (js ''&iacute;'', [237]),
      (js ''&oacute;'', [243]), (js ''&uacute;'', [250]), (js ''&ntilde;'', [241]),
      (js ''&Aacute;'', [193]), (js ''&Eacute;'', [201]), (js ''&Iacute;'', [205]),
      (js ''&Oacute;'', [211]), (js ''&Uacute;'', [218]), (js ''&Ntilde;'', [209]),
      (js ''&uuml;'', [252]), (js ''&Uuml;'', [220]), (js ''&iexcl;'', [161]),
      (js ''&iquest;'', [191]), (js ''&laquo;'', [171]), (js ''&raquo;'', [187]),
      (js ''&mdash;'', [8212]), (js ''&ndash;'', [8211]), (js ''&hellip;'', [8230])]"

fun replaceEntities :: "(jsstring \<times> jsstring) list \<Rightarrow> jsstring \<Rightarrow> jsstring" where
  "replaceEntities [] s = s"
| "replaceEntities (e # es) s = replaceEntities es (replaceAll False (Lit (fst e)) (\<lambda>m. snd e) s)"

definition stripHtml :: "jsstring \<Rightarrow> jsstring" where
  "stripHtml html =
     trim (replaceAll False ws1 (\<lambda>m. [32])
       (replaceEntities entities
         (replaceAll False tagRe (\<lambda>m. [32]) (replaceAll True brRe (\<lambda>m. [10]) html))))"

text \<open>
  The expressions of \<open>extractArticles\<close> and \<open>extractTransitoryArticles\<close>; \<open>tagsRe\<close> is
  \<open>(?:<[^>]*>)*\<close>, \<open>Cls True []\<close> is \<open>[\s\S]\<close>.
\<close>

definition tagsRe :: re where
  "tagsRe = Star True (catL [word ''<'', Star True (Cls True [Ch 62]), word ''>''])"

definition articleRe :: re where
  "articleRe = catL [tagsRe, ws, articuloRe, ws1, Grp 1 articleNumRe, ws, dotDash]"

definition chapterReHtml :: re where
  "chapterReHtml = catL [tagsRe, ws, headingWordRe, ws1, Grp 1 (plusR (Cls True [Ch 60, Ch 10]))]"

definition titleReHtml :: re where
  "titleReHtml =
     catL [Bol, articuloRe, ws1, plusR (Cls False [Dg, Wd, Sp, Ch 46]), dotDash, ws,
           Grp 1 (catL [plusR (Cls True [Ch 46]), word ''.''])]"

definition transitoryMatchRe :: re where
  "transitoryMatchRe =
     catL [tagsRe, ws, word ''TRANSITORIO'', Opt (word ''S''), ws, tagsRe,
           Grp 1 (Star False (Cls True [])), Alt (word ''</body>'') Eol]"

definition transitoryReHtml :: re where
  "transitoryReHtml =
     catL [Alt articuloRe ordinalWordRe, ws, Opt (word ''Transitorio''), ws, dotDash]"

text \<open>The text \<open>m[0]\<close> of a match in \<open>s\<close>, and \<open>s.substring(a, b)\<close> for \<open>a \<le> b\<close>.\<close>

definition matched :: "jsstring \<Rightarrow> nat \<times> mst \<Rightarrow> jsstring" where
  "matched s im = take (pos (snd im) - fst im) (drop (fst im) s)"

definition substring :: "jsstring \<Rightarrow> nat \<Rightarrow> nat \<Rightarrow> jsstring" where
  "substring s a b = take (b - a) (drop a s)"

definition chapterPositions :: "jsstring \<Rightarrow> (jsstring \<times> nat) list" where
  "chapterPositions html =
     concat (map (\<lambda>im. (let label = trim (stripHtml (matched html im))
                          in if 0 < length label \<and> length label < 200 then [(label, fst im)] else []))
       (execAll True chapterReHtml html))"

definition chapterAt :: "(jsstring \<times> nat) list \<Rightarrow> nat \<Rightarrow> jsstring \<Rightarrow> jsstring" where
  "chapterAt chs p cur = foldl (\<lambda>c ch. if snd ch < p then fst ch else c) cur chs"

fun buildHtmlArticles :: "jsstring \<Rightarrow> (jsstring \<times> nat) list \<Rightarrow> jsstring \<Rightarrow> (jsstring \<times> nat) list
    \<Rightarrow> ParsedProvision list \<times> ParsedDefinition list" where
  "buildHtmlArticles html chs cur [] = ([], [])"
| "buildHtmlArticles html chs cur (a # as) =
     (let nextArticlePos = (case as of [] \<Rightarrow> length html | a' # as' \<Rightarrow> snd a');
          cur' = chapterAt chs (snd a) cur;
          text = take 8000 (stripHtml (substring html (snd a) nextArticlePos));
          more = buildHtmlArticles html chs cur' as
      in if length text < 15 then more
         else (provisionOf titleReHtml (fst a) cur' text # fst more,
               extractDefinitions text (normalizeArticleRef (fst a)) @ snd more))"

definition extractArticles :: "jsstring \<Rightarrow> ParsedProvision list \<times> ParsedDefinition list" where
  "extractArticles html =
     buildHtmlArticles html (chapterPositions html) []
       (map (\<lambda>im. (trim (grpOr (snd im) 1), fst im)) (execAll True articleRe html))"

fun buildHtmlTransitory :: "jsstring \<Rightarrow> nat \<Rightarrow> (jsstring \<times> nat) list \<Rightarrow> ParsedProvision list" where
  "buildHtmlTransitory th i [] = []"
| "buildHtmlTransitory th i (p # ps) =
     (if i < 20
      then (let nextPos = (case ps of [] \<Rightarrow> length th | q # qs \<Rightarrow> snd q);
                text = stripHtml (substring th (snd p) nextPos)
            in (if length text < 15 then [] else [transitoryOf i (fst p) text])
               @ buildHtmlTransitory th (i + 1) ps)
      else [])"

definition extractTransitoryArticles :: "jsstring \<Rightarrow> ParsedProvision list" where
  "extractTransitoryArticles html =
     (case exec True transitoryMatchRe html of
        None \<Rightarrow> []
      | Some im \<Rightarrow>
          (let th = matched html im
           in buildHtmlTransitory th 0
                (map (\<lambda>jm. (trim (stripHtml (matched th jm)), fst jm))
                   (execAll True transitoryReHtml th))))"

definition parseMexicanHtml :: "jsstring \<Rightarrow> LawIndexEntry \<Rightarrow> ParsedLaw" where
  "parseMexicanHtml html law =
     (if includesStr html (js ''Error 404'') \<or> includesStr html (js ''No encontrado'')
         \<or> length html < 500
      then emptyLaw law
      else (let pd = extractArticles html;
                transitoryProvisions = extractTransitoryArticles html
            in \<lparr>doc_id = law_id law, doc_title = law_title law, title_en = titleEn law,
                short_name = shortName law, doc_status = law_status law,
                issued_date = issuedDate law, in_force_date = inForceDate law,
                doc_url = law_url law,
                doc_description = Some (orDefault (law_description law) (law_title law)),
                provisions = fst pd @ transitoryProvisions, definitions = snd pd\<rparr>))"

section \<open>The fetcher\<close>

text \<open>
  The network is a parameter: \<open>net n url\<close> is what the \<open>n\<close>-th request of the run, sent to
  \<open>url\<close>, comes back with: a response, the abort of the timeout, or any other error. A
  response carries its status, the text that \<open>decodeResponseBody\<close> makes of its body, the raw
  bytes of the body, its content type and its final address. The state of the module is the
  clock, the two variables of the rate limiter, and the log of the addresses requested.
\<close>

record response =
  rs_status :: int
  rs_text :: jsstring
  rs_bytes :: "nat list"
  rs_contentType :: jsstring
  rs_url :: jsstring

datatype outcome = Responded response | Aborted | Failed jsstring

type_synonym network = "nat \<Rightarrow> jsstring \<Rightarrow> outcome"

datatype js_error = Thrown jsstring | FetchFailed jsstring int

record limiter =
  clock :: int
  lastRequestTime :: int
  activeRequests :: int
  requests :: "jsstring list"

record FetchResult =
  fr_status :: int
  fr_body :: jsstring
  fr_contentType :: jsstring
  fr_url :: jsstring

definition MIN_DELAY_MS :: int where "MIN_DELAY_MS = 300"
definition CONNECT_TIMEOUT_MS :: int where "CONNECT_TIMEOUT_MS = 15000"
definition MAX_CONCURRENT :: int where "MAX_CONCURRENT = 5"

text \<open>
  \<open>rateLimit\<close> for a single caller. While the slots are all taken the source polls every 50
  milliseconds; with no other caller to release one, the loop never ends: \<open>None\<close>.
\<close>

definition rateLimit :: "limiter \<Rightarrow> limiter option" where
  "rateLimit s =
     (if MAX_CONCURRENT \<le> activeRequests s then None
      else (let elapsed = clock s - lastRequestTime s;
                now = (if elapsed < MIN_DELAY_MS then clock s + (MIN_DELAY_MS - elapsed) else clock s)
            in Some (s\<lparr>clock := now, lastRequestTime := now,
                       activeRequests := activeRequests s + 1\<rparr>)))"

definition releaseSlot :: "limiter \<Rightarrow> limiter" where
  "releaseSlot s = s\<lparr>activeRequests := max 0 (activeRequests s - 1)\<rparr>"

definition logRequest :: "jsstring \<Rightarrow> limiter \<Rightarrow> limiter" where
  "logRequest url s = s\<lparr>requests := requests s @ [url]\<rparr>"

definition sleep :: "int \<Rightarrow> limiter \<Rightarrow> limiter" where
  "sleep ms s = s\<lparr>clock := clock s + ms\<rparr>"

definition retryable :: "int \<Rightarrow> bool" where
  "retryable st = (st = 429 \<or> 500 \<le> st)"

definition backoff :: "int \<Rightarrow> int" where
  "backoff attempt = 2 ^ nat (attempt + 1) * 1000"

text \<open>
  The loop of \<open>fetchWithRateLimit\<close>, from \<open>attempt\<close> on. A request is aborted by the timer
  of \<open>CONNECT_TIMEOUT_MS\<close>, so an abort comes after that time; the time a response or another
  error takes is not modelled.
\<close>

function attemptLoop :: "network \<Rightarrow> jsstring \<Rightarrow> int \<Rightarrow> int \<Rightarrow> limiter
    \<Rightarrow> (js_error + FetchResult) \<times> limiter" where
  "attemptLoop net url maxRetries attempt s =
     (if attempt \<le> maxRetries
      then (case net (length (requests s)) url of
              Responded r \<Rightarrow>
                if retryable (rs_status r) \<and> attempt < maxRetries
                then attemptLoop net url maxRetries (attempt + 1)
                       (sleep (backoff attempt) (logRequest url s))
                else (Inr \<lparr>fr_status = rs_status r, fr_body = rs_text r,
                           fr_contentType = rs_contentType r, fr_url = rs_url r\<rparr>,
                      logRequest url s)
            | Aborted \<Rightarrow>
                if attempt < maxRetries
                then attemptLoop net url maxRetries (attempt + 1)
                       (sleep CONNECT_TIMEOUT_MS (logRequest url s))
                else (Inr \<lparr>fr_status = 0, fr_body = [], fr_contentType = [], fr_url = url\<rparr>,
                      sleep CONNECT_TIMEOUT_MS (logRequest url s))
            | Failed e \<Rightarrow> (Inl (Thrown e), logRequest url s))
      else (Inl (FetchFailed url maxRetries), s))"
  by pat_completeness auto
termination
  by (relation "measure (\<lambda>(net, url, maxRetries, attempt, s). nat (maxRetries + 1 - attempt))") auto

declare attemptLoop.simps [simp del]

definition fetchWithRateLimit :: "network \<Rightarrow> jsstring \<Rightarrow> int \<Rightarrow> limiter
    \<Rightarrow> ((js_error + FetchResult) \<times> limiter) option" where
  "fetchWithRateLimit net url maxRetries s =
     (case rateLimit s of
        None \<Rightarrow> None
      | Some s1 \<Rightarrow>
          (case attemptLoop net url maxRetries 0 s1 of
             (res, s2) \<Rightarrow> Some (res, releaseSlot s2)))"

definition usable :: "FetchResult \<Rightarrow> bool" where
  "usable r = (fr_status r = 200 \<and> 500 < length (fr_body r))"

definition fetchLawHtml :: "network \<Rightarrow> jsstring \<Rightarrow> limiter
    \<Rightarrow> ((js_error + FetchResult) \<times> limiter) option" where
  "fetchLawHtml net code s =
     (case fetchWithRateLimit net
             (js ''https://www.diputados.gob.mx/LeyesBiblio/ref/'' @ code @ js ''.htm'') 3 s of
        None \<Rightarrow> None
      | Some (Inl e, s1) \<Rightarrow> Some (Inl e, s1)
      | Some (Inr result, s1) \<Rightarrow>
          if usable result then Some (Inr result, s1)
          else (case fetchWithRateLimit net
                       (js ''https://www.diputados.gob.mx/LeyesBiblio/ref/'' @ code
                          @ js ''_ref.htm'') 3 s1 of
                  None \<Rightarrow> None
                | Some (Inl e, s2) \<Rightarrow> Some (Inl e, s2)
                | Some (Inr altResult, s2) \<Rightarrow>
                    if usable altResult then Some (Inr altResult, s2)
                    else Some (Inr result, s2)))"

text \<open>The chain of candidates of \<open>fetchLawFile\<close> and \<open>fetchLawPdf\<close>.\<close>

datatype format = doc | pdf

record candidate =
  c_url :: jsstring
  c_format :: format

record FileResult =
  ff_status :: int
  ff_buffer :: "nat list"
  ff_url :: jsstring
  ff_format :: format

datatype loop_exit = Return FileResult | Break | Throw js_error

text \<open>The loop over the attempts at one candidate, from \<open>attempt\<close> on.\<close>

function fileAttempts :: "network \<Rightarrow> candidate \<Rightarrow> nat \<Rightarrow> limiter \<Rightarrow> loop_exit \<times> limiter" where
  "fileAttempts net c attempt s =
     (if attempt \<le> 2
      then (case net (length (requests s)) (c_url c) of
              Responded r \<Rightarrow>
                if retryable (rs_status r) \<and> attempt < 2
                then fileAttempts net c (attempt + 1)
                       (sleep (backoff (int attempt)) (logRequest (c_url c) s))
                else if rs_status r = 404 then (Break, logRequest (c_url c) s)
                else if rs_status r \<noteq> 200
                then (Return \<lparr>ff_status = rs_status r, ff_buffer = [], ff_url = c_url c,
                               ff_format = c_format c\<rparr>, logRequest (c_url c) s)
                else (Return \<lparr>ff_status = rs_status r, ff_buffer = rs_bytes r, ff_url = c_url c,
                               ff_format = c_format c\<rparr>, logRequest (c_url c) s)
            | Aborted \<Rightarrow>
                if attempt < 2
                then fileAttempts net c (attempt + 1) (sleep CONNECT_TIMEOUT_MS (logRequest (c_url c) s))
                else (Break, sleep CONNECT_TIMEOUT_MS (logRequest (c_url c) s))
            | Failed e \<Rightarrow> (Throw (Thrown e), logRequest (c_url c) s))
      else (Break, s))"
  by pat_completeness auto
termination
  by (relation "measure (\<lambda>(net, c, attempt, s). 3 - attempt)") auto

declare fileAttempts.simps [simp del]

fun fileCandidates :: "network \<Rightarrow> candidate list \<Rightarrow> limiter \<Rightarrow> loop_exit \<times> limiter" where
  "fileCandidates net [] s = (Break, s)"
| "fileCandidates net (c # cs) s =
     (case fileAttempts net c 0 s of
        (Break, s1) \<Rightarrow> fileCandidates net cs s1
      | (Return r, s1) \<Rightarrow> (Return r, s1)
      | (Throw e, s1) \<Rightarrow> (Throw e, s1))"

definition truthy :: "jsstring option \<Rightarrow> bool" where
  "truthy u = (case u of None \<Rightarrow> False | Some s \<Rightarrow> s \<noteq> [])"

definition given :: "jsstring option \<Rightarrow> format \<Rightarrow> candidate list" where
  "given u f = (if truthy u then [\<lparr>c_url = orDefault u [], c_format = f\<rparr>] else [])"

definition fileCandidateList :: "jsstring \<Rightarrow> jsstring option \<Rightarrow> jsstring option \<Rightarrow> candidate list" where
  "fileCandidateList code docUrl' pdfUrl' =
     given docUrl' doc
     @ [\<lparr>c_url = js ''https://www.diputados.gob.mx/LeyesBiblio/doc/'' @ code @ js ''.doc'',
         c_format = doc\<rparr>]
     @ given pdfUrl' pdf
     @ [\<lparr>c_url = js ''https://www.diputados.gob.mx/LeyesBiblio/pdf/'' @ code @ js ''.pdf'',
         c_format = pdf\<rparr>]"

definition firstUrl :: "candidate list \<Rightarrow> jsstring" where
  "firstUrl cs = (case cs of [] \<Rightarrow> [] | c # cs' \<Rightarrow> c_url c)"

definition fetchLawFile :: "network \<Rightarrow> jsstring \<Rightarrow> jsstring option \<Rightarrow> jsstring option \<Rightarrow> limiter
    \<Rightarrow> ((js_error + FileResult) \<times> limiter) option" where
  "fetchLawFile net code docUrl' pdfUrl' s =
     (case rateLimit s of
        None \<Rightarrow> None
      | Some s1 \<Rightarrow>
          (case fileCandidates net (fileCandidateList code docUrl' pdfUrl') s1 of
             (Return r, s2) \<Rightarrow> Some (Inr r, releaseSlot s2)
           | (Throw e, s2) \<Rightarrow> Some (Inl e, releaseSlot s2)
           | (Break, s2) \<Rightarrow>
               Some (Inr \<lparr>ff_status = 404, ff_buffer = [],
                          ff_url = firstUrl (fileCandidateList code docUrl' pdfUrl'),
                          ff_format = doc\<rparr>, releaseSlot s2)))"

text \<open>
  \<open>fetchLawPdf\<close> of the variant that downloads the PDF only. Its two loops are those of
  \<open>fetchLawFile\<close>, line by line, without the format, which is \<open>pdf\<close> for every candidate
  here and is dropped from the result. \<open>titleCaseRe\<close> is \<open>/(?:^|_)(\w)/g\<close>.
\<close>

record PdfResult =
  pr_status :: int
  pr_buffer :: "nat list"
  pr_url :: jsstring







definition dropFormat :: "FileResult \<Rightarrow> PdfResult" where
  "dropFormat r = \<lparr>pr_status = ff_status r, pr_buffer = ff_buffer r, pr_url = ff_url r\<rparr>"


text \<open>The wrapper of the variant with \<open>fetchLawFile\<close>, which keeps the name \<open>fetchLawPdf\<close> there.\<close>

definition fetchLawPdf_legacy :: "network \<Rightarrow> jsstring \<Rightarrow> jsstring option \<Rightarrow> limiter
    \<Rightarrow> ((js_error + PdfResult) \<times> limiter) option" where
  "fetchLawPdf_legacy net code pdfUrl' s =
     map_option (\<lambda>rs. (map_sum id dropFormat (fst rs), snd rs)) (fetchLawFile net code None pdfUrl' s)"

section \<open>The rate limiter under interleaved callers\<close>

text \<open>
  Callers of \<open>fetchWithRateLimit\<close> run on one thread and give up control at each \<open>await\<close>
  only. A caller is at the test of the polling loop of \<open>rateLimit\<close> (\<open>AtLoop\<close>), waits for
  the 50 millisecond timer of that loop (\<open>Polling\<close>, with the time the timer is due), waits
  for the timer that spaces the requests (\<open>Delaying\<close>), is between the increment of
  \<open>activeRequests\<close> and \<open>releaseSlot\<close> (\<open>InFlight\<close>), or has released its slot. An event
  lets time pass, resumes a caller whose timer is due up to its next \<open>await\<close>, or completes
  the request of a caller in flight, which runs its \<open>finally\<close> block.
\<close>

datatype pc = AtLoop | Polling int | Delaying int | InFlight | Released

record sched =
  s_clock :: int
  s_last :: int
  s_active :: int
  s_pcs :: "pc list"

datatype event = Tick nat | Resume nat | Complete nat

text \<open>From the test of the polling loop to the next \<open>await\<close>, or through to the increment.\<close>

definition enter :: "nat \<Rightarrow> sched \<Rightarrow> sched" where
  "enter i w =
     (if MAX_CONCURRENT \<le> s_active w then w\<lparr>s_pcs := (s_pcs w)[i := Polling (s_clock w + 50)]\<rparr>
      else if s_clock w - s_last w < MIN_DELAY_MS
      then w\<lparr>s_pcs := (s_pcs w)[i := Delaying (s_clock w + (MIN_DELAY_MS - (s_clock w - s_last w)))]\<rparr>
      else w\<lparr>s_last := s_clock w, s_active := s_active w + 1, s_pcs := (s_pcs w)[i := InFlight]\<rparr>)"

definition sstep :: "sched \<Rightarrow> event \<Rightarrow> sched option" where
  "sstep w e =
     (case e of
        Tick d \<Rightarrow> Some (w\<lparr>s_clock := s_clock w + int d\<rparr>)
      | Resume i \<Rightarrow>
          (if i < length (s_pcs w)
           then (case s_pcs w ! i of
                   AtLoop \<Rightarrow> Some (enter i w)
                 | Polling t \<Rightarrow> if t \<le> s_clock w then Some (enter i w) else None
                 | Delaying t \<Rightarrow>
                     if t \<le> s_clock w
                     then Some (w\<lparr>s_last := s_clock w, s_active := s_active w + 1,
                                  s_pcs := (s_pcs w)[i := InFlight]\<rparr>)
                     else None
                 | InFlight \<Rightarrow> None
                 | Released \<Rightarrow> None)
           else None)
      | Complete i \<Rightarrow>
          (if i < length (s_pcs w) \<and> s_pcs w ! i = InFlight
           then Some (w\<lparr>s_active := max 0 (s_active w - 1), s_pcs := (s_pcs w)[i := Released]\<rparr>)
           else None))"

fun srun :: "sched \<Rightarrow> event list \<Rightarrow> sched option" where
  "srun w [] = Some w"
| "srun w (e # es) = (case sstep w e of None \<Rightarrow> None | Some w' \<Rightarrow> srun w' es)"

text \<open>\<open>n\<close> callers that have just called, at time \<open>t\<close>, in a fresh module.\<close>

definition callers :: "nat \<Rightarrow> int \<Rightarrow> sched" where
  "callers n t = \<lparr>s_clock = t, s_last = 0, s_active = 0, s_pcs = replicate n AtLoop\<rparr>"

definition inFlight :: "sched \<Rightarrow> nat" where
  "inFlight w = length (filter (\<lambda>p. p = InFlight) (s_pcs w))"

section \<open>The ingestion pipeline\<close>

text \<open>
  The files of the pipeline are two tables, from the identifier of a law to the cached page
  and to the seed written for it; writing the serialised seed is storing the seed. The
  counters and the report, which are only printed, are left out.
\<close>

record pipeline =
  lim :: limiter
  sources :: "jsstring \<Rightarrow> jsstring option"
  seeds :: "jsstring \<Rightarrow> ParsedLaw option"

definition fallbackProvision :: "LawIndexEntry \<Rightarrow> ParsedProvision" where
  "fallbackProvision law =
     \<lparr>provision_ref = js ''art1'', p_chapter = None, p_section = js ''1'',
      p_title = shortName law @ js '' - Art'' @ [237] @ js ''culo 1'',
      p_content = law_title law @ js ''. '' @ orDefault (law_description law) []
        @ js ''. Texto completo disponible en: '' @ law_url law\<rparr>"

definition createFallbackSeed :: "LawIndexEntry \<Rightarrow> ParsedLaw" where
  "createFallbackSeed law = (emptyLaw law)\<lparr>provisions := [fallbackProvision law]\<rparr>"

definition writeSeed :: "LawIndexEntry \<Rightarrow> ParsedLaw \<Rightarrow> pipeline \<Rightarrow> pipeline" where
  "writeSeed law d st = st\<lparr>seeds := (seeds st)(law_id law \<mapsto> d)\<rparr>"

text \<open>From the parse to the seed: the fallback replaces a parse without provisions.\<close>

definition storeParsed :: "LawIndexEntry \<Rightarrow> jsstring \<Rightarrow> pipeline \<Rightarrow> pipeline" where
  "storeParsed law html st =
     (if provisions (parseMexicanHtml html law) = []
      then writeSeed law (createFallbackSeed law) st
      else writeSeed law (parseMexicanHtml html law) st)"

text \<open>
  One turn of the loop of \<open>fetchAndParseLaws\<close>. \<open>None\<close>: the turn never ends, the fetch is
  blocked in the rate limiter.
\<close>

definition processLaw :: "network \<Rightarrow> bool \<Rightarrow> LawIndexEntry \<Rightarrow> pipeline \<Rightarrow> pipeline option" where
  "processLaw net skipFetch law st =
     (if skipFetch \<and> seeds st (law_id law) \<noteq> None then Some st
      else (case (if skipFetch then sources st (law_id law) else None) of
              Some html \<Rightarrow> Some (storeParsed law html st)
            | None \<Rightarrow>
                (case fetchLawHtml net (law_code law) (lim st) of
                   None \<Rightarrow> None
                 | Some (Inl e, l) \<Rightarrow> Some (writeSeed law (createFallbackSeed law) (st\<lparr>lim := l\<rparr>))
                 | Some (Inr result, l) \<Rightarrow>
                     if fr_status result \<noteq> 200
                     then Some (writeSeed law (createFallbackSeed law) (st\<lparr>lim := l\<rparr>))
                     else Some (storeParsed law (fr_body result)
                            (st\<lparr>lim := l,
                                sources := (sources st)(law_id law \<mapsto> fr_body result)\<rparr>)))))"

fun fetchAndParseLaws :: "network \<Rightarrow> LawIndexEntry list \<Rightarrow> bool \<Rightarrow> pipeline \<Rightarrow> pipeline option" where
  "fetchAndParseLaws net [] skipFetch st = Some st"
| "fetchAndParseLaws net (law # laws) skipFetch st =
     (case processLaw net skipFetch law st of
        None \<Rightarrow> None
      | Some st' \<Rightarrow> fetchAndParseLaws net laws skipFetch st')"

section \<open>Notions used to state the properties\<close>

subsection \<open>Networks and states of the fetcher\<close>

text \<open>
  A server that answers every request to an address with status 500; networks that answer
  every request with one status, or the first request with 404 and the later ones with 200;
  the rate limiter of a fresh module at time 1000, before and after a caller has taken a
  slot; the candidates of the law with the code \<open>LFT\<close>; and the log after one request to each
  candidate of a list.
\<close>

definition always500 :: "network \<Rightarrow> jsstring \<Rightarrow> bool" where
  "always500 net url = (\<forall>n. case net n url of Responded r \<Rightarrow> rs_status r = 500 | Aborted \<Rightarrow> False | Failed e \<Rightarrow> False)"

definition server500 :: network where
  "server500 n url = Responded \<lparr>rs_status = 500, rs_text = [], rs_bytes = [], rs_contentType = [], rs_url = url\<rparr>"

definition idle :: limiter where
  "idle = \<lparr>clock = 1000, lastRequestTime = 0, activeRequests = 0, requests = []\<rparr>"










subsection \<open>States of the pipeline\<close>

text \<open>
  The page that a turn of the loop reads instead of fetching, an entry of the index, the
  pipeline before its first turn, a state in which the seed on file for \<open>law0\<close> has no
  provision, and the two properties of a seed that the loop keeps.
\<close>

definition cachedPage :: "bool \<Rightarrow> LawIndexEntry \<Rightarrow> pipeline \<Rightarrow> jsstring option" where
  "cachedPage skipFetch law st = (if skipFetch then sources st (law_id law) else None)"

definition law0 :: LawIndexEntry where
  "law0 = \<lparr>law_id = js ''lft'', law_code = js ''lft'', law_title = js ''Ley Federal del Trabajo'',
     titleEn = None, shortName = js ''LFT'', law_status = in_force, issuedDate = js ''1970-04-01'',
     inForceDate = js ''1970-05-01'',
     law_url = js ''https://www.diputados.gob.mx/LeyesBiblio/ref/lft.htm'',
     pdfUrl = None, docUrl = None, law_description = None\<rparr>"



definition seeded :: "pipeline \<Rightarrow> jsstring \<Rightarrow> bool" where
  "seeded st k = (case seeds st k of None \<Rightarrow> False | Some d \<Rightarrow> provisions d \<noteq> [])"

definition cacheSound :: "pipeline \<Rightarrow> jsstring \<Rightarrow> bool" where
  "cacheSound st k = (case seeds st k of None \<Rightarrow> True | Some d \<Rightarrow> provisions d \<noteq> [])"

subsection \<open>A schedule of six callers\<close>

definition race :: "event list" where
  "race = [Resume 0, Resume 1, Resume 2, Resume 3, Resume 4, Resume 5, Tick 300,
           Resume 1, Resume 2, Resume 3, Resume 4, Resume 5]"

subsection \<open>Markers, labels and the items of a definition\<close>

text \<open>
  Lines that start with the word for article, in small letters and in capitals, and the
  label that the marker expression captures from a line. The item of the enumerated
  definition, an article and a page that carry the cue and the item, an article in which the
  abbreviation of a company precedes the item, and an article with the item and no cue.
  \<open>romanStop\<close>: somewhere in the text a capital among I, V, X, L, C stands directly before a
  full stop; \<open>startsRomanStop\<close>: the text starts with a run of such capitals that a full
  stop follows.
\<close>

definition marker :: "string \<Rightarrow> jsstring" where
  "marker s = js ''Art'' @ [237] @ js ''culo '' @ js s"

definition MARKER :: "string \<Rightarrow> jsstring" where
  "MARKER s = js ''ART'' @ [205] @ js ''CULO '' @ js s"

definition capturedLabel :: "jsstring \<Rightarrow> jsstring option" where
  "capturedLabel line = map_option (\<lambda>im. trim (grpOr (snd im) 1)) (exec True articleStartRe line)"

definition termino :: jsstring where
  "termino = js ''T'' @ [233] @ js ''rmino''"

definition terminoItem :: jsstring where
  "terminoItem = js ''I. '' @ termino @ js '': significado;''"

definition defArticle :: jsstring where
  "defArticle = joinNL [marker ''2.- Para los efectos de esta Ley se entiende por:'', terminoItem]"

definition defPage :: jsstring where
  "defPage = js ''<p>'' @ marker ''2.- Para los efectos de esta Ley se entiende por: '' @ terminoItem
             @ js ''</p>''"

definition companyArticle :: jsstring where
  "companyArticle =
     joinNL [marker ''2.- Para los efectos de esta Ley, S.A. de C.V. se entiende por:'', terminoItem]"

definition bareArticle :: jsstring where
  "bareArticle = marker ''2.- '' @ terminoItem"

definition isRoman :: "jschar \<Rightarrow> bool" where
  "isRoman c = (c = 73 \<or> c = 86 \<or> c = 88 \<or> c = 76 \<or> c = 67)"

fun romanStop :: "jsstring \<Rightarrow> bool" where
  "romanStop (a # b # cs) = (isRoman a \<and> b = 46 \<or> romanStop (b # cs))"
| "romanStop [a] = False"
| "romanStop [] = False"

definition startsRomanStop :: "jsstring \<Rightarrow> bool" where
  "startsRomanStop s =
     (case s of [] \<Rightarrow> False
      | c # cs \<Rightarrow> isRoman c \<and> (case dropWhile isRoman cs of [] \<Rightarrow> False | d # ds \<Rightarrow> d = 46))"

subsection \<open>The lines of a law\<close>

text \<open>
  The kinds of lines that the scan of \<open>extractArticlesFromText\<close> tells apart, in the order
  of its tests: a header, a transitory heading, an article marker. \<open>headerForm\<close> is the
  chapter that the scan makes of a header, \<open>nearestHeader\<close> the last header among the lines
  given, \<open>chapterBefore\<close> its form, or the empty chapter. \<open>blockText\<close> is the text the
  extractor makes of the lines of an article, \<open>clauseText\<close> the text of the lines of a
  transitory clause.
\<close>

definition isHeader :: "jsstring \<Rightarrow> bool" where
  "isHeader l = (exec True chapterRe l \<noteq> None)"

definition headerForm :: "jsstring \<Rightarrow> jsstring" where
  "headerForm l =
     (case exec True chapterRe l of None \<Rightarrow> []
      | Some im \<Rightarrow> take 200 (toUpperCase (grpOr (snd im) 1) @ [32] @ trim (grpOr (snd im) 2)))"

definition isHeading :: "jsstring \<Rightarrow> bool" where
  "isHeading l = (\<not> isHeader l \<and> test True transitoryRe l)"

definition isMarker :: "jsstring \<Rightarrow> bool" where
  "isMarker l = (\<not> isHeader l \<and> \<not> test True transitoryRe l \<and> capturedLabel l \<noteq> None)"

definition labelOf :: "jsstring \<Rightarrow> jsstring" where
  "labelOf l = (case capturedLabel l of None \<Rightarrow> [] | Some n \<Rightarrow> n)"

definition nearestHeader :: "jsstring list \<Rightarrow> jsstring option" where
  "nearestHeader ls = (case filter isHeader ls of [] \<Rightarrow> None | h # hs \<Rightarrow> Some (last (h # hs)))"

definition chapterBefore :: "jsstring list \<Rightarrow> jsstring" where
  "chapterBefore ls = (case nearestHeader ls of None \<Rightarrow> [] | Some h \<Rightarrow> headerForm h)"

definition blockText :: "jsstring list \<Rightarrow> jsstring" where
  "blockText ls = articleText ls 0 (length ls)"

definition clauseText :: "jsstring list \<Rightarrow> jsstring" where
  "clauseText ls = trim (joinNL ls)"

subsection \<open>Sample laws\<close>

text \<open>
  A law of two headers, three articles, the transitory heading and two clauses; a law of
  the same shape below 200 code units; one with a header in small letters and a first clause
  of 13 code units; and a decree that numbers its articles from 1 twice. \<open>regular\<close> and
  \<open>transitory\<close> are the two parts of the provisions of \<open>parseMexicanText\<close>.
\<close>

definition tituloPrimero :: jsstring where
  "tituloPrimero = js ''T'' @ [205] @ js ''TULO PRIMERO''"

definition capituloI :: jsstring where
  "capituloI = js ''CAP'' @ [205] @ js ''TULO I''"

definition capituloII :: jsstring where
  "capituloII = js ''CAP'' @ [205] @ js ''TULO II''"

definition capituloLower :: jsstring where
  "capituloLower = js ''Cap'' @ [237] @ js ''tulo I''"

definition articulo1 :: jsstring where
  "articulo1 = marker ''1.- La presente Ley es de orden publico.''"

definition articulo2 :: jsstring where
  "articulo2 = marker ''2.- Son sujetos de esta Ley los particulares.''"

definition articulo3 :: jsstring where
  "articulo3 = marker ''3.- El Instituto vigilara su cumplimiento.''"

definition primero :: jsstring where
  "primero = js ''PRIMERO.- La presente Ley entra en vigor al dia siguiente.''"

definition segundo :: jsstring where
  "segundo = js ''SEGUNDO.- Se derogan las disposiciones que se opongan.''"

definition sampleLaw :: jsstring where
  "sampleLaw = joinNL [tituloPrimero, capituloI, articulo1, articulo2, capituloII, articulo3,
                       js ''TRANSITORIOS'', primero, segundo]"

definition shortLaw :: jsstring where
  "shortLaw = joinNL [capituloI, marker ''1.- La Ley es publica.'',
                      marker ''2.- Obliga a todos.'', marker ''3.- El Instituto vigila.'',
                      js ''TRANSITORIOS'', js ''PRIMERO.- Entra en vigor hoy.'',
                      js ''SEGUNDO.- Deroga las otras.'']"

definition looseLaw :: jsstring where
  "looseLaw = joinNL [capituloLower, articulo1, articulo2, articulo3,
                      js ''TRANSITORIOS'', js ''PRIMERO.- Ya.'', segundo,
                      js ''Dado en el Palacio Legislativo de San Lazaro, en la Ciudad de Mexico.'']"

definition decreto1 :: jsstring where
  "decreto1 = marker ''1.- Se reforma el articulo 5 de la Ley Federal.''"

definition decreto2 :: jsstring where
  "decreto2 = marker ''1.- Se adiciona un articulo 6 a la Ley General.''"

definition twiceFirst :: jsstring where
  "twiceFirst = joinNL [js ''DECRETO por el que se reforman dos leyes'', decreto1,
                        js ''El Ejecutivo Federal expedira el reglamento.'', decreto2,
                        js ''La Secretaria publicara los lineamientos.'']"

definition regular :: "jsstring \<Rightarrow> ParsedProvision list" where
  "regular text = (if length text < 200 then [] else fst (extractArticlesFromText (cleanPdfText text)))"

definition transitory :: "jsstring \<Rightarrow> ParsedProvision list" where
  "transitory text = (if length text < 200 then [] else extractTransitoryFromText (cleanPdfText text))"

subsection \<open>Line breaks and counts\<close>

text \<open>
  For the proof that cleaning is idempotent: the number of line breaks a text starts with,
  the closed form of the replacement \<open>/\n{4,}/g\<close> by three line breaks (\<open>collapse_closed\<close>
  proves it equal to the replacement of the source), and the number of lines that the table
  of the lines in capitals counts under a key.
\<close>

definition newlines :: "jsstring \<Rightarrow> nat" where
  "newlines s = length (takeWhile (\<lambda>c. c = 10) s)"

function collapseNL :: "jsstring \<Rightarrow> jsstring" where
  "collapseNL s =
     (if 4 \<le> newlines s then [10, 10, 10] @ collapseNL (dropWhile (\<lambda>c. c = 10) s)
      else (case s of [] \<Rightarrow> [] | c # cs \<Rightarrow> c # collapseNL cs))"
  by pat_completeness auto
termination
proof (relation "measure length")
  fix s :: jsstring
  assume "4 \<le> newlines s"
  moreover have "length s = newlines s + length (dropWhile (\<lambda>c. c = 10) s)"
    unfolding newlines_def by (metis length_append takeWhile_dropWhile_id)
  ultimately show "(dropWhile (\<lambda>c. c = 10) s, s) \<in> measure length" by simp
qed auto

declare collapseNL.simps [simp del]

definition capsCount :: "jsstring list \<Rightarrow> jsstring \<Rightarrow> nat" where
  "capsCount ls k = length (filter (\<lambda>l. isCapsLine (trim l) \<and> trim l = k) ls)"

section \<open>Evaluation\<close>

text \<open>
  The concrete cases below are computed by rewriting. The tables give the classes and the
  case mappings of the code units that occur in them, one rewrite step each.
\<close>

lemma of_char_tab:
  "of_char (CHR '' '') = (32::nat)" "of_char (CHR ''!'') = (33::nat)" "of_char (CHR ''#'') = (35::nat)" "of_char (CHR ''$'') = (36::nat)"
  "of_char (CHR ''%'') = (37::nat)" "of_char (CHR ''&'') = (38::nat)" "of_char (CHR ''('') = (40::nat)" "of_char (CHR '')'') = (41::nat)"
  "of_char (CHR ''*'') = (42::nat)" "of_char (CHR ''+'') = (43::nat)" "of_char (CHR '','') = (44::nat)" "of_char (CHR ''-'') = (45::nat)"
  "of_char (CHR ''.'') = (46::nat)" "of_char (CHR ''/'') = (47::nat)" "of_char (CHR ''0'') = (48::nat)" "of_char (CHR ''1'') = (49::nat)"
  "of_char (CHR ''2'') = (50::nat)" "of_char (CHR ''3'') = (51::nat)" "of_char (CHR ''4'') = (52::nat)" "of_char (CHR ''5'') = (53::nat)"
  "of_char (CHR ''6'') = (54::nat)" "of_char (CHR ''7'') = (55::nat)" "of_char (CHR ''8'') = (56::nat)" "of_char (CHR ''9'') = (57::nat)"
  "of_char (CHR '':'') = (58::nat)" "of_char (CHR '';'') = (59::nat)" "of_char (CHR ''<'') = (60::nat)" "of_char (CHR ''='') = (61::nat)"
  "of_char (CHR ''>'') = (62::nat)" "of_char (CHR ''?'') = (63::nat)" "of_char (CHR ''@'') = (64::nat)" "of_char (CHR ''A'') = (65::nat)"
  "of_char (CHR ''B'') = (66::nat)" "of_char (CHR ''C'') = (67::nat)" "of_char (CHR ''D'') = (68::nat)" "of_char (CHR ''E'') = (69::nat)"
  "of_char (CHR ''F'') = (70::nat)" "of_char (CHR ''G'') = (71::nat)" "of_char (CHR ''H'') = (72::nat)" "of_char (CHR ''I'') = (73::nat)"
  "of_char (CHR ''J'') = (74::nat)" "of_char (CHR ''K'') = (75::nat)" "of_char (CHR ''L'') = (76::nat)" "of_char (CHR ''M'') = (77::nat)"
  "of_char (CHR ''N'') = (78::nat)" "of_char (CHR ''O'') = (79::nat)" "of_char (CHR ''P'') = (80::nat)" "of_char (CHR ''Q'') = (81::nat)"
  "of_char (CHR ''R'') = (82::nat)" "of_char (CHR ''S'') = (83::nat)" "of_char (CHR ''T'') = (84::nat)" "of_char (CHR ''U'') = (85::nat)"
  "of_char (CHR ''V'') = (86::nat)" "of_char (CHR ''W'') = (87::nat)" "of_char (CHR ''X'') = (88::nat)" "of_char (CHR ''Y'') = (89::nat)"
  "of_char (CHR ''Z'') = (90::nat)" "of_char (CHR ''['') = (91::nat)" "of_char (CHR '']'') = (93::nat)" "of_char (CHR ''^'') = (94::nat)"
  "of_char (CHR ''_'') = (95::nat)" "of_char (CHR ''a'') = (97::nat)" "of_char (CHR ''b'') = (98::nat)" "of_char (CHR ''c'') = (99::nat)"
  "of_char (CHR ''d'') = (100::nat)" "of_char (CHR ''e'') = (101::nat)" "of_char (CHR ''f'') = (102::nat)" "of_char (CHR ''g'') = (103::nat)"
  "of_char (CHR ''h'') = (104::nat)" "of_char (CHR ''i'') = (105::nat)" "of_char (CHR ''j'') = (106::nat)" "of_char (CHR ''k'') = (107::nat)"
  "of_char (CHR ''l'') = (108::nat)" "of_char (CHR ''m'') = (109::nat)" "of_char (CHR ''n'') = (110::nat)" "of_char (CHR ''o'') = (111::nat)"
  "of_char (CHR ''p'') = (112::nat)" "of_char (CHR ''q'') = (113::nat)" "of_char (CHR ''r'') = (114::nat)" "of_char (CHR ''s'') = (115::nat)"
  "of_char (CHR ''t'') = (116::nat)" "of_char (CHR ''u'') = (117::nat)" "of_char (CHR ''v'') = (118::nat)" "of_char (CHR ''w'') = (119::nat)"
  "of_char (CHR ''x'') = (120::nat)" "of_char (CHR ''y'') = (121::nat)" "of_char (CHR ''z'') = (122::nat)" "of_char (CHR ''{'') = (123::nat)"
  "of_char (CHR ''|'') = (124::nat)" "of_char (CHR ''}'') = (125::nat)" "of_char (CHR ''~'') = (126::nat)"
  by (simp_all)

lemma canon_tab:
  "canon 9 = 9" "canon 10 = 10" "canon 13 = 13" "canon 32 = 32" "canon 33 = 33" "canon 34 = 34"
  "canon 35 = 35" "canon 36 = 36" "canon 37 = 37" "canon 38 = 38" "canon 39 = 39" "canon 40 = 40"
  "canon 41 = 41" "canon 42 = 42" "canon 43 = 43" "canon 44 = 44" "canon 45 = 45" "canon 46 = 46"
  "canon 47 = 47" "canon 48 = 48" "canon 49 = 49" "canon 50 = 50" "canon 51 = 51" "canon 52 = 52"
  "canon 53 = 53" "canon 54 = 54" "canon 55 = 55" "canon 56 = 56" "canon 57 = 57" "canon 58 = 58"
  "canon 59 = 59" "canon 60 = 60" "canon 61 = 61" "canon 62 = 62" "canon 63 = 63" "canon 64 = 64"
  "canon 65 = 65" "canon 66 = 66" "canon 67 = 67" "canon 68 = 68" "canon 69 = 69" "canon 70 = 70"
  "canon 71 = 71" "canon 72 = 72" "canon 73 = 73" "canon 74 = 74" "canon 75 = 75" "canon 76 = 76"
  "canon 77 = 77" "canon 78 = 78" "canon 79 = 79" "canon 80 = 80" "canon 81 = 81" "canon 82 = 82"
  "canon 83 = 83" "canon 84 = 84" "canon 85 = 85" "canon 86 = 86" "canon 87 = 87" "canon 88 = 88"
  "canon 89 = 89" "canon 90 = 90" "canon 91 = 91" "canon 92 = 92" "canon 93 = 93" "canon 94 = 94"
  "canon 95 = 95" "canon 96 = 96" "canon 97 = 65" "canon 98 = 66" "canon 99 = 67" "canon 100 = 68"
  "canon 101 = 69" "canon 102 = 70" "canon 103 = 71" "canon 104 = 72" "canon 105 = 73" "canon 106 = 74"
  "canon 107 = 75" "canon 108 = 76" "canon 109 = 77" "canon 110 = 78" "canon 111 = 79" "canon 112 = 80"
  "canon 113 = 81" "canon 114 = 82" "canon 115 = 83" "canon 116 = 84" "canon 117 = 85" "canon 118 = 86"
  "canon 119 = 87" "canon 120 = 88" "canon 121 = 89" "canon 122 = 90" "canon 123 = 123" "canon 124 = 124"
  "canon 125 = 125" "canon 126 = 126" "canon 160 = 160" "canon 193 = 193" "canon 201 = 201" "canon 205 = 205"
  "canon 209 = 209" "canon 211 = 211" "canon 218 = 218" "canon 220 = 220" "canon 225 = 193" "canon 233 = 201"
  "canon 237 = 205" "canon 241 = 209" "canon 243 = 211" "canon 250 = 218" "canon 252 = 220"
  by (simp_all add: canon_def upperUnit_def)

lemma isSpace_tab:
  "isSpace 9 = True" "isSpace 10 = True" "isSpace 13 = True" "isSpace 32 = True"
  "isSpace 33 = False" "isSpace 34 = False" "isSpace 35 = False" "isSpace 36 = False"
  "isSpace 37 = False" "isSpace 38 = False" "isSpace 39 = False" "isSpace 40 = False"
  "isSpace 41 = False" "isSpace 42 = False" "isSpace 43 = False" "isSpace 44 = False"
  "isSpace 45 = False" "isSpace 46 = False" "isSpace 47 = False" "isSpace 48 = False"
  "isSpace 49 = False" "isSpace 50 = False" "isSpace 51 = False" "isSpace 52 = False"
  "isSpace 53 = False" "isSpace 54 = False" "isSpace 55 = False" "isSpace 56 = False"
  "isSpace 57 = False" "isSpace 58 = False" "isSpace 59 = False" "isSpace 60 = False"
  "isSpace 61 = False" "isSpace 62 = False" "isSpace 63 = False" "isSpace 64 = False"
  "isSpace 65 = False" "isSpace 66 = False" "isSpace 67 = False" "isSpace 68 = False"
  "isSpace 69 = False" "isSpace 70 = False" "isSpace 71 = False" "isSpace 72 = False"
  "isSpace 73 = False" "isSpace 74 = False" "isSpace 75 = False" "isSpace 76 = False"
  "isSpace 77 = False" "isSpace 78 = False" "isSpace 79 = False" "isSpace 80 = False"
  "isSpace 81 = False" "isSpace 82 = False" "isSpace 83 = False" "isSpace 84 = False"
  "isSpace 85 = False" "isSpace 86 = False" "isSpace 87 = False" "isSpace 88 = False"
  "isSpace 89 = False" "isSpace 90 = False" "isSpace 91 = False" "isSpace 92 = False"
  "isSpace 93 = False" "isSpace 94 = False" "isSpace 95 = False" "isSpace 96 = False"
  "isSpace 97 = False" "isSpace 98 = False" "isSpace 99 = False" "isSpace 100 = False"
  "isSpace 101 = False" "isSpace 102 = False" "isSpace 103 = False" "isSpace 104 = False"
  "isSpace 105 = False" "isSpace 106 = False" "isSpace 107 = False" "isSpace 108 = False"
  "isSpace 109 = False" "isSpace 110 = False" "isSpace 111 = False" "isSpace 112 = False"
  "isSpace 113 = False" "isSpace 114 = False" "isSpace 115 = False" "isSpace 116 = False"
  "isSpace 117 = False" "isSpace 118 = False" "isSpace 119 = False" "isSpace 120 = False"
  "isSpace 121 = False" "isSpace 122 = False" "isSpace 123 = False" "isSpace 124 = False"
  "isSpace 125 = False" "isSpace 126 = False" "isSpace 160 = True" "isSpace 193 = False"
  "isSpace 201 = False" "isSpace 205 = False" "isSpace 209 = False" "isSpace 211 = False"
  "isSpace 218 = False" "isSpace 220 = False" "isSpace 225 = False" "isSpace 233 = False"
  "isSpace 237 = False" "isSpace 241 = False" "isSpace 243 = False" "isSpace 250 = False"
  "isSpace 252 = False"
  by (simp_all add: isSpace_def)

lemma isDigit_tab:
  "isDigit 9 = False" "isDigit 10 = False" "isDigit 13 = False" "isDigit 32 = False"
  "isDigit 33 = False" "isDigit 34 = False" "isDigit 35 = False" "isDigit 36 = False"
  "isDigit 37 = False" "isDigit 38 = False" "isDigit 39 = False" "isDigit 40 = False"
  "isDigit 41 = False" "isDigit 42 = False" "isDigit 43 = False" "isDigit 44 = False"
  "isDigit 45 = False" "isDigit 46 = False" "isDigit 47 = False" "isDigit 48 = True"
  "isDigit 49 = True" "isDigit 50 = True" "isDigit 51 = True" "isDigit 52 = True"
  "isDigit 53 = True" "isDigit 54 = True" "isDigit 55 = True" "isDigit 56 = True"
  "isDigit 57 = True" "isDigit 58 = False" "isDigit 59 = False" "isDigit 60 = False"
  "isDigit 61 = False" "isDigit 62 = False" "isDigit 63 = False" "isDigit 64 = False"
  "isDigit 65 = False" "isDigit 66 = False" "isDigit 67 = False" "isDigit 68 = False"
  "isDigit 69 = False" "isDigit 70 = False" "isDigit 71 = False" "isDigit 72 = False"
  "isDigit 73 = False" "isDigit 74 = False" "isDigit 75 = False" "isDigit 76 = False"
  "isDigit 77 = False" "isDigit 78 = False" "isDigit 79 = False" "isDigit 80 = False"
  "isDigit 81 = False" "isDigit 82 = False" "isDigit 83 = False" "isDigit 84 = False"
  "isDigit 85 = False" "isDigit 86 = False" "isDigit 87 = False" "isDigit 88 = False"
  "isDigit 89 = False" "isDigit 90 = False" "isDigit 91 = False" "isDigit 92 = False"
  "isDigit 93 = False" "isDigit 94 = False" "isDigit 95 = False" "isDigit 96 = False"
  "isDigit 97 = False" "isDigit 98 = False" "isDigit 99 = False" "isDigit 100 = False"
  "isDigit 101 = False" "isDigit 102 = False" "isDigit 103 = False" "isDigit 104 = False"
  "isDigit 105 = False" "isDigit 106 = False" "isDigit 107 = False" "isDigit 108 = False"
  "isDigit 109 = False" "isDigit 110 = False" "isDigit 111 = False" "isDigit 112 = False"
  "isDigit 113 = False" "isDigit 114 = False" "isDigit 115 = False" "isDigit 116 = False"
  "isDigit 117 = False" "isDigit 118 = False" "isDigit 119 = False" "isDigit 120 = False"
  "isDigit 121 = False" "isDigit 122 = False" "isDigit 123 = False" "isDigit 124 = False"
  "isDigit 125 = False" "isDigit 126 = False" "isDigit 160 = False" "isDigit 193 = False"
  "isDigit 201 = False" "isDigit 205 = False" "isDigit 209 = False" "isDigit 211 = False"
  "isDigit 218 = False" "isDigit 220 = False" "isDigit 225 = False" "isDigit 233 = False"
  "isDigit 237 = False" "isDigit 241 = False" "isDigit 243 = False" "isDigit 250 = False"
  "isDigit 252 = False"
  by (simp_all add: isDigit_def)

lemma isWord_tab:
  "isWord 9 = False" "isWord 10 = False" "isWord 13 = False" "isWord 32 = False"
  "isWord 33 = False" "isWord 34 = False" "isWord 35 = False" "isWord 36 = False"
  "isWord 37 = False" "isWord 38 = False" "isWord 39 = False" "isWord 40 = False"
  "isWord 41 = False" "isWord 42 = False" "isWord 43 = False" "isWord 44 = False"
  "isWord 45 = False" "isWord 46 = False" "isWord 47 = False" "isWord 48 = True"
  "isWord 49 = True" "isWord 50 = True" "isWord 51 = True" "isWord 52 = True"
  "isWord 53 = True" "isWord 54 = True" "isWord 55 = True" "isWord 56 = True"
  "isWord 57 = True" "isWord 58 = False" "isWord 59 = False" "isWord 60 = False"
  "isWord 61 = False" "isWord 62 = False" "isWord 63 = False" "isWord 64 = False"
  "isWord 65 = True" "isWord 66 = True" "isWord 67 = True" "isWord 68 = True"
  "isWord 69 = True" "isWord 70 = True" "isWord 71 = True" "isWord 72 = True"
  "isWord 73 = True" "isWord 74 = True" "isWord 75 = True" "isWord 76 = True"
  "isWord 77 = True" "isWord 78 = True" "isWord 79 = True" "isWord 80 = True"
  "isWord 81 = True" "isWord 82 = True" "isWord 83 = True" "isWord 84 = True"
  "isWord 85 = True" "isWord 86 = True" "isWord 87 = True" "isWord 88 = True"
  "isWord 89 = True" "isWord 90 = True" "isWord 91 = False" "isWord 92 = False"
  "isWord 93 = False" "isWord 94 = False" "isWord 95 = True" "isWord 96 = False"
  "isWord 97 = True" "isWord 98 = True" "isWord 99 = True" "isWord 100 = True"
  "isWord 101 = True" "isWord 102 = True" "isWord 103 = True" "isWord 104 = True"
  "isWord 105 = True" "isWord 106 = True" "isWord 107 = True" "isWord 108 = True"
  "isWord 109 = True" "isWord 110 = True" "isWord 111 = True" "isWord 112 = True"
  "isWord 113 = True" "isWord 114 = True" "isWord 115 = True" "isWord 116 = True"
  "isWord 117 = True" "isWord 118 = True" "isWord 119 = True" "isWord 120 = True"
  "isWord 121 = True" "isWord 122 = True" "isWord 123 = False" "isWord 124 = False"
  "isWord 125 = False" "isWord 126 = False" "isWord 160 = False" "isWord 193 = False"
  "isWord 201 = False" "isWord 205 = False" "isWord 209 = False" "isWord 211 = False"
  "isWord 218 = False" "isWord 220 = False" "isWord 225 = False" "isWord 233 = False"
  "isWord 237 = False" "isWord 241 = False" "isWord 243 = False" "isWord 250 = False"
  "isWord 252 = False"
  by (simp_all add: isWord_def isDigit_def)

lemma isLineTerminator_tab:
  "isLineTerminator 9 = False" "isLineTerminator 10 = True" "isLineTerminator 13 = True"
  "isLineTerminator 32 = False" "isLineTerminator 33 = False" "isLineTerminator 34 = False"
  "isLineTerminator 35 = False" "isLineTerminator 36 = False" "isLineTerminator 37 = False"
  "isLineTerminator 38 = False" "isLineTerminator 39 = False" "isLineTerminator 40 = False"
  "isLineTerminator 41 = False" "isLineTerminator 42 = False" "isLineTerminator 43 = False"
  "isLineTerminator 44 = False" "isLineTerminator 45 = False" "isLineTerminator 46 = False"
  "isLineTerminator 47 = False" "isLineTerminator 48 = False" "isLineTerminator 49 = False"
  "isLineTerminator 50 = False" "isLineTerminator 51 = False" "isLineTerminator 52 = False"
  "isLineTerminator 53 = False" "isLineTerminator 54 = False" "isLineTerminator 55 = False"
  "isLineTerminator 56 = False" "isLineTerminator 57 = False" "isLineTerminator 58 = False"
  "isLineTerminator 59 = False" "isLineTerminator 60 = False" "isLineTerminator 61 = False"
  "isLineTerminator 62 = False" "isLineTerminator 63 = False" "isLineTerminator 64 = False"
  "isLineTerminator 65 = False" "isLineTerminator 66 = False" "isLineTerminator 67 = False"
  "isLineTerminator 68 = False" "isLineTerminator 69 = False" "isLineTerminator 70 = False"
  "isLineTerminator 71 = False" "isLineTerminator 72 = False" "isLineTerminator 73 = False"
  "isLineTerminator 74 = False" "isLineTerminator 75 = False" "isLineTerminator 76 = False"
  "isLineTerminator 77 = False" "isLineTerminator 78 = False" "isLineTerminator 79 = False"
  "isLineTerminator 80 = False" "isLineTerminator 81 = False" "isLineTerminator 82 = False"
  "isLineTerminator 83 = False" "isLineTerminator 84 = False" "isLineTerminator 85 = False"
  "isLineTerminator 86 = False" "isLineTerminator 87 = False" "isLineTerminator 88 = False"
  "isLineTerminator 89 = False" "isLineTerminator 90 = False" "isLineTerminator 91 = False"
  "isLineTerminator 92 = False" "isLineTerminator 93 = False" "isLineTerminator 94 = False"
  "isLineTerminator 95 = False" "isLineTerminator 96 = False" "isLineTerminator 97 = False"
  "isLineTerminator 98 = False" "isLineTerminator 99 = False" "isLineTerminator 100 = False"
  "isLineTerminator 101 = False" "isLineTerminator 102 = False" "isLineTerminator 103 = False"
  "isLineTerminator 104 = False" "isLineTerminator 105 = False" "isLineTerminator 106 = False"
  "isLineTerminator 107 = False" "isLineTerminator 108 = False" "isLineTerminator 109 = False"
  "isLineTerminator 110 = False" "isLineTerminator 111 = False" "isLineTerminator 112 = False"
  "isLineTerminator 113 = False" "isLineTerminator 114 = False" "isLineTerminator 115 = False"
  "isLineTerminator 116 = False" "isLineTerminator 117 = False" "isLineTerminator 118 = False"
  "isLineTerminator 119 = False" "isLineTerminator 120 = False" "isLineTerminator 121 = False"
  "isLineTerminator 122 = False" "isLineTerminator 123 = False" "isLineTerminator 124 = False"
  "isLineTerminator 125 = False" "isLineTerminator 126 = False" "isLineTerminator 160 = False"
  "isLineTerminator 193 = False" "isLineTerminator 201 = False" "isLineTerminator 205 = False"
  "isLineTerminator 209 = False" "isLineTerminator 211 = False" "isLineTerminator 218 = False"
  "isLineTerminator 220 = False" "isLineTerminator 225 = False" "isLineTerminator 233 = False"
  "isLineTerminator 237 = False" "isLineTerminator 241 = False" "isLineTerminator 243 = False"
  "isLineTerminator 250 = False" "isLineTerminator 252 = False"
  by (simp_all add: isLineTerminator_def)

lemma lowerUnit_tab:
  "lowerUnit 9 = 9" "lowerUnit 10 = 10" "lowerUnit 13 = 13" "lowerUnit 32 = 32" "lowerUnit 33 = 33"
  "lowerUnit 34 = 34" "lowerUnit 35 = 35" "lowerUnit 36 = 36" "lowerUnit 37 = 37" "lowerUnit 38 = 38"
  "lowerUnit 39 = 39" "lowerUnit 40 = 40" "lowerUnit 41 = 41" "lowerUnit 42 = 42" "lowerUnit 43 = 43"
  "lowerUnit 44 = 44" "lowerUnit 45 = 45" "lowerUnit 46 = 46" "lowerUnit 47 = 47" "lowerUnit 48 = 48"
  "lowerUnit 49 = 49" "lowerUnit 50 = 50" "lowerUnit 51 = 51" "lowerUnit 52 = 52" "lowerUnit 53 = 53"
  "lowerUnit 54 = 54" "lowerUnit 55 = 55" "lowerUnit 56 = 56" "lowerUnit 57 = 57" "lowerUnit 58 = 58"
  "lowerUnit 59 = 59" "lowerUnit 60 = 60" "lowerUnit 61 = 61" "lowerUnit 62 = 62" "lowerUnit 63 = 63"
  "lowerUnit 64 = 64" "lowerUnit 65 = 97" "lowerUnit 66 = 98" "lowerUnit 67 = 99" "lowerUnit 68 = 100"
  "lowerUnit 69 = 101" "lowerUnit 70 = 102" "lowerUnit 71 = 103" "lowerUnit 72 = 104" "lowerUnit 73 = 105"
  "lowerUnit 74 = 106" "lowerUnit 75 = 107" "lowerUnit 76 = 108" "lowerUnit 77 = 109" "lowerUnit 78 = 110"
  "lowerUnit 79 = 111" "lowerUnit 80 = 112" "lowerUnit 81 = 113" "lowerUnit 82 = 114" "lowerUnit 83 = 115"
  "lowerUnit 84 = 116" "lowerUnit 85 = 117" "lowerUnit 86 = 118" "lowerUnit 87 = 119" "lowerUnit 88 = 120"
  "lowerUnit 89 = 121" "lowerUnit 90 = 122" "lowerUnit 91 = 91" "lowerUnit 92 = 92" "lowerUnit 93 = 93"
  "lowerUnit 94 = 94" "lowerUnit 95 = 95" "lowerUnit 96 = 96" "lowerUnit 97 = 97" "lowerUnit 98 = 98"
  "lowerUnit 99 = 99" "lowerUnit 100 = 100" "lowerUnit 101 = 101" "lowerUnit 102 = 102" "lowerUnit 103 = 103"
  "lowerUnit 104 = 104" "lowerUnit 105 = 105" "lowerUnit 106 = 106" "lowerUnit 107 = 107" "lowerUnit 108 = 108"
  "lowerUnit 109 = 109" "lowerUnit 110 = 110" "lowerUnit 111 = 111" "lowerUnit 112 = 112" "lowerUnit 113 = 113"
  "lowerUnit 114 = 114" "lowerUnit 115 = 115" "lowerUnit 116 = 116" "lowerUnit 117 = 117" "lowerUnit 118 = 118"
  "lowerUnit 119 = 119" "lowerUnit 120 = 120" "lowerUnit 121 = 121" "lowerUnit 122 = 122" "lowerUnit 123 = 123"
  "lowerUnit 124 = 124" "lowerUnit 125 = 125" "lowerUnit 126 = 126" "lowerUnit 160 = 160" "lowerUnit 193 = 225"
  "lowerUnit 201 = 233" "lowerUnit 205 = 237" "lowerUnit 209 = 241" "lowerUnit 211 = 243" "lowerUnit 218 = 250"
  "lowerUnit 220 = 252" "lowerUnit 225 = 225" "lowerUnit 233 = 233" "lowerUnit 237 = 237" "lowerUnit 241 = 241"
  "lowerUnit 243 = 243" "lowerUnit 250 = 250" "lowerUnit 252 = 252"
  by (simp_all add: lowerUnit_def)

lemma upperUnit_tab:
  "upperUnit 9 = [9]" "upperUnit 10 = [10]" "upperUnit 13 = [13]" "upperUnit 32 = [32]"
  "upperUnit 33 = [33]" "upperUnit 34 = [34]" "upperUnit 35 = [35]" "upperUnit 36 = [36]"
  "upperUnit 37 = [37]" "upperUnit 38 = [38]" "upperUnit 39 = [39]" "upperUnit 40 = [40]"
  "upperUnit 41 = [41]" "upperUnit 42 = [42]" "upperUnit 43 = [43]" "upperUnit 44 = [44]"
  "upperUnit 45 = [45]" "upperUnit 46 = [46]" "upperUnit 47 = [47]" "upperUnit 48 = [48]"
  "upperUnit 49 = [49]" "upperUnit 50 = [50]" "upperUnit 51 = [51]" "upperUnit 52 = [52]"
  "upperUnit 53 = [53]" "upperUnit 54 = [54]" "upperUnit 55 = [55]" "upperUnit 56 = [56]"
  "upperUnit 57 = [57]" "upperUnit 58 = [58]" "upperUnit 59 = [59]" "upperUnit 60 = [60]"
  "upperUnit 61 = [61]" "upperUnit 62 = [62]" "upperUnit 63 = [63]" "upperUnit 64 = [64]"
  "upperUnit 65 = [65]" "upperUnit 66 = [66]" "upperUnit 67 = [67]" "upperUnit 68 = [68]"
  "upperUnit 69 = [69]" "upperUnit 70 = [70]" "upperUnit 71 = [71]" "upperUnit 72 = [72]"
  "upperUnit 73 = [73]" "upperUnit 74 = [74]" "upperUnit 75 = [75]" "upperUnit 76 = [76]"
  "upperUnit 77 = [77]" "upperUnit 78 = [78]" "upperUnit 79 = [79]" "upperUnit 80 = [80]"
  "upperUnit 81 = [81]" "upperUnit 82 = [82]" "upperUnit 83 = [83]" "upperUnit 84 = [84]"
  "upperUnit 85 = [85]" "upperUnit 86 = [86]" "upperUnit 87 = [87]" "upperUnit 88 = [88]"
  "upperUnit 89 = [89]" "upperUnit 90 = [90]" "upperUnit 91 = [91]" "upperUnit 92 = [92]"
  "upperUnit 93 = [93]" "upperUnit 94 = [94]" "upperUnit 95 = [95]" "upperUnit 96 = [96]"
  "upperUnit 97 = [65]" "upperUnit 98 = [66]" "upperUnit 99 = [67]" "upperUnit 100 = [68]"
  "upperUnit 101 = [69]" "upperUnit 102 = [70]" "upperUnit 103 = [71]" "upperUnit 104 = [72]"
  "upperUnit 105 = [73]" "upperUnit 106 = [74]" "upperUnit 107 = [75]" "upperUnit 108 = [76]"
  "upperUnit 109 = [77]" "upperUnit 110 = [78]" "upperUnit 111 = [79]" "upperUnit 112 = [80]"
  "upperUnit 113 = [81]" "upperUnit 114 = [82]" "upperUnit 115 = [83]" "upperUnit 116 = [84]"
  "upperUnit 117 = [85]" "upperUnit 118 = [86]" "upperUnit 119 = [87]" "upperUnit 120 = [88]"
  "upperUnit 121 = [89]" "upperUnit 122 = [90]" "upperUnit 123 = [123]" "upperUnit 124 = [124]"
  "upperUnit 125 = [125]" "upperUnit 126 = [126]" "upperUnit 160 = [160]" "upperUnit 193 = [193]"
  "upperUnit 201 = [201]" "upperUnit 205 = [205]" "upperUnit 209 = [209]" "upperUnit 211 = [211]"
  "upperUnit 218 = [218]" "upperUnit 220 = [220]" "upperUnit 225 = [193]" "upperUnit 233 = [201]"
  "upperUnit 237 = [205]" "upperUnit 241 = [209]" "upperUnit 243 = [211]" "upperUnit 250 = [218]"
  "upperUnit 252 = [220]"
  by (simp_all add: upperUnit_def)

lemma run_Star_Cls:
  "run ic (R (Star True (Cls n items)) # k) st =
     (case rest st of [] \<Rightarrow> run ic k st
      | c # cs \<Rightarrow> if inSet ic n items c
          then (case run ic (R (Star True (Cls n items)) # k) (step st c cs) of
                  Some m \<Rightarrow> Some m | None \<Rightarrow> run ic k st)
          else run ic k st)"
  by (cases "rest st") (auto simp: step_def)

lemma run_Star_Dot:
  "run ic (R (Star True Dot) # k) st =
     (case rest st of [] \<Rightarrow> run ic k st
      | c # cs \<Rightarrow> if isLineTerminator c then run ic k st
          else (case run ic (R (Star True Dot) # k) (step st c cs) of
                  Some m \<Rightarrow> Some m | None \<Rightarrow> run ic k st))"
  by (cases "rest st") (auto simp: step_def)

lemma search_Bol: "searchFrom ic (Cat Bol r) p (Some c) s = None"
  by (induction s arbitrary: p c) auto

lemma run_cong: "a = b \<Longrightarrow> run ic (R a # k) st = run ic (R b # k) st"
  by simp

lemmas run_defs =
  articuloRe_def [THEN run_cong]
  articleNumRe_def [THEN run_cong] ordinalRe_def [THEN run_cong] cueRe_def [THEN run_cong]
  defRe_def [THEN run_cong] semiEndRe_def [THEN run_cong] camaraRe_def [THEN run_cong]
  secretariaRe_def [THEN run_cong] ultimaReformaRe_def [THEN run_cong]
  digits14_def [THEN run_cong] pageNumberRe_def [THEN run_cong] seccionRe_def [THEN run_cong]
  reformNoteRe_def [THEN run_cong] denominacionRe_def [THEN run_cong]
  erratasRe_def [THEN run_cong] parenNoteRe_def [THEN run_cong] capsRe_def [THEN run_cong]
  blankRunRe_def [THEN run_cong] articleStartRe_def [THEN run_cong]
  headingWordRe_def [THEN run_cong] chapterRe_def [THEN run_cong]
  transitoriosWordRe_def [THEN run_cong] transitoryRe_def [THEN run_cong]
  tripleNewlineRe_def [THEN run_cong] blanksRe_def [THEN run_cong] titleRe_def [THEN run_cong]
  transitorySectionRe_def [THEN run_cong] ordinalWordRe_def [THEN run_cong]
  transRe_def [THEN run_cong]

lemma anchored:
  "searchFrom ic camaraRe p (Some c) s = None"
  "searchFrom ic secretariaRe p (Some c) s = None"
  "searchFrom ic ultimaReformaRe p (Some c) s = None"
  "searchFrom ic pageNumberRe p (Some c) s = None"
  "searchFrom ic reformNoteRe p (Some c) s = None"
  "searchFrom ic denominacionRe p (Some c) s = None"
  "searchFrom ic erratasRe p (Some c) s = None"
  "searchFrom ic parenNoteRe p (Some c) s = None"
  "searchFrom ic capsRe p (Some c) s = None"
  "searchFrom ic articleStartRe p (Some c) s = None"
  "searchFrom ic chapterRe p (Some c) s = None"
  "searchFrom ic transitoryRe p (Some c) s = None"
  "searchFrom ic titleRe p (Some c) s = None"
  "searchFrom ic transRe p (Some c) s = None"
  by (simp_all add: camaraRe_def secretariaRe_def ultimaReformaRe_def pageNumberRe_def
      reformNoteRe_def denominacionRe_def erratasRe_def parenNoteRe_def capsRe_def
      articleStartRe_def chapterRe_def transitoryRe_def titleRe_def transRe_def search_Bol)

lemma nat_sub_one: "numeral v - (1::nat) = pred_numeral v"
  by simp

lemma nat_one_sub: "(1::nat) - numeral v = 0" "(1::nat) - 1 = 0"
  by simp_all

lemma nat_one_rel: "((1::nat) < 1) = False" "((0::nat) < 1) = True" "((1::nat) \<le> 1) = True"
  by simp_all

lemma length_eval: "length [] = 0" "length (x # xs) = length xs + 1"
  by simp_all

lemma nat_int_one: "nat 1 = 1"
  by simp

lemma take_one: "take 1 (x # xs) = [x]"
  by simp

lemma drop_one: "drop 1 (x # xs) = xs"
  by simp

lemma Let_value:
  "Let [] f = f []"
  "Let (x # xs) f = f (x # xs)"
  "Let (a, b) g = g (a, b)"
  "Let None h = h None"
  "Let (Some y) h = h (Some y)"
  "Let True b1 = b1 True"
  "Let False b1 = b1 False"
  "Let (0::nat) n1 = n1 0"
  "Let (1::nat) n1 = n1 1"
  "Let (numeral v :: nat) n1 = n1 (numeral v)"
  "Let \<lparr>currentChapter = cc, transitoryStart = ts, articleBlocks = ab\<rparr> sc1
     = sc1 \<lparr>currentChapter = cc, transitoryStart = ts, articleBlocks = ab\<rparr>"
  by (simp_all add: Let_def)

lemmas nat_arith = arith_simps rel_simps arith_special add_0 add_0_right
  diff_nat_numeral nat_sub_one nat_numeral nat_0 nat_neg_numeral diff_zero diff_0_eq_0
  pred_numeral_simps BitM.simps nat_one_sub nat_one_rel diff_self_eq_0 nat_int_one

lemmas lean = of_char_tab canon_tab isSpace_tab isDigit_tab isWord_tab isLineTerminator_tab lowerUnit_tab
  upperUnit_tab
  js_def eqc_def inSet_def step_def exec_def test_def search_def grp_def grpOr_def
  replaceAll_def replaceFirst_def execAll_def plusR_def word_def trim_def slice_def orDefault_def
  toLowerCase_def toUpperCase_def
  run_defs anchored run_Star_Cls run_Star_Dot Let_value
  iI_def oO_def eE_def digit_def dotDash_def ws_def ws1_def
  run.simps(1-8) run.simps(10-15) searchFrom.simps replaceFrom.simps execFrom.simps
  catL.simps altL.simps inItem.simps trimEnd.simps splitNL.simps joinNL.simps startsWith.simps
  includesStr.simps
  mst.select_convs mst.update_convs scan.select_convs scan.update_convs
  ArticleBlock.select_convs ParsedProvision.select_convs ParsedDefinition.select_convs
  ParsedLaw.select_convs LawIndexEntry.select_convs
  list.case list.map list.inject list.distinct append.simps concat.simps
  list_ex_Nil_iff list_ex_Cons_iff
  take_Cons_numeral drop_Cons_numeral take_0 drop_0 take.simps(1) drop.simps(1) take_one drop_one
  dropWhile.simps filter.simps map_of_Cons_code length_eval
  option.case option.distinct option.inject option.map
  prod.case fst_conv snd_conv prod.inject
  simp_thms if_True if_False
  nat_arith

lemmas lean_cong = if_weak_cong option.case_cong_weak list.case_cong_weak

lemma run_Star_Cat:
  "run ic (R (Star True (Cat a b)) # k) st =
     (case run ic (R (Cat a b) # IterI (length (rest st)) True (Cat a b) # k) st of
        Some m \<Rightarrow> Some m | None \<Rightarrow> run ic k st)"
  by simp

lemmas parse_ev = cleanPdfText_def cleanLines.simps skipLine_def isCapsLine_def capsLineCount.simps
  bumpCount.simps removeRepeated.simps extractArticlesFromText_def scanLines.simps scanLine_def
  buildArticles.simps articleText_def articleTitle_def sectionNum_def provisionOf_def
  normalizeArticleRef_def extractDefinitions_def definitionsIn_def definitionOf_def
  extractTransitoryFromText_def transPositions.simps buildTransitory.simps transitoryOf_def
  decimal.simps parseMexicanText_def

lemmas html_ev = stripHtml_def replaceEntities.simps entities_def matched_def substring_def
  chapterPositions_def chapterAt_def foldl.simps buildHtmlArticles.simps extractArticles_def
  brRe_def [THEN run_cong] tagRe_def [THEN run_cong] tagsRe_def [THEN run_cong]
  articleRe_def [THEN run_cong] chapterReHtml_def [THEN run_cong] titleReHtml_def [THEN run_cong]
  run_Star_Cat

section \<open>Metadata\<close>

text \<open>
  Claim C10. For every text, every page and every entry of the index, the law that
  \<open>parseMexicanText\<close> and \<open>parseMexicanHtml\<close> return carries the identifier, the title, the
  English title, the short name, the status, the two dates and the address of the entry
  unchanged, whatever the body is, the branch for short or error pages included.
\<close>

theorem parse_keeps_metadata:
  "doc_id (parseMexicanText text law) = law_id law
   \<and> doc_title (parseMexicanText text law) = law_title law
   \<and> title_en (parseMexicanText text law) = titleEn law
   \<and> short_name (parseMexicanText text law) = shortName law
   \<and> doc_status (parseMexicanText text law) = law_status law
   \<and> issued_date (parseMexicanText text law) = issuedDate law
   \<and> in_force_date (parseMexicanText text law) = inForceDate law
   \<and> doc_url (parseMexicanText text law) = law_url law
   \<and> doc_id (parseMexicanHtml html law) = law_id law
   \<and> doc_title (parseMexicanHtml html law) = law_title law
   \<and> title_en (parseMexicanHtml html law) = titleEn law
   \<and> short_name (parseMexicanHtml html law) = shortName law
   \<and> doc_status (parseMexicanHtml html law) = law_status law
   \<and> issued_date (parseMexicanHtml html law) = issuedDate law
   \<and> in_force_date (parseMexicanHtml html law) = inForceDate law
   \<and> doc_url (parseMexicanHtml html law) = law_url law"
  by (simp add: parseMexicanText_def parseMexicanHtml_def emptyLaw_def Let_def)

section \<open>Retries\<close>

lemma always500D:
  "always500 net url \<Longrightarrow> \<exists>r. net n url = Responded r \<and> rs_status r = 500"
  unfolding always500_def by (erule_tac x = n in allE) (auto split: outcome.splits)

lemma attemptLoop_500:
  assumes "always500 net url"
  shows "0 \<le> attempt \<Longrightarrow> attempt \<le> maxRetries \<Longrightarrow> nat (maxRetries - attempt) = k \<Longrightarrow>
    \<exists>res s'. attemptLoop net url maxRetries attempt s = (Inr res, s') \<and> fr_status res = 500
      \<and> requests s' = requests s @ replicate (k + 1) url
      \<and> activeRequests s' = activeRequests s"
proof (induction k arbitrary: attempt s)
  case 0
  then have eq: "attempt = maxRetries" by simp
  from always500D [OF assms] obtain r where r: "net (length (requests s)) url = Responded r" "rs_status r = 500"
    by blast
  show ?case
    by (subst attemptLoop.simps) (simp add: eq r logRequest_def)
next
  case (Suc k)
  then have lt: "attempt < maxRetries" by simp
  from always500D [OF assms] obtain r where r: "net (length (requests s)) url = Responded r" "rs_status r = 500"
    by blast
  have step: "attemptLoop net url maxRetries attempt s
    = attemptLoop net url maxRetries (attempt + 1) (sleep (backoff attempt) (logRequest url s))"
    using lt by (subst attemptLoop.simps) (simp add: r retryable_def)
  from Suc.prems have "0 \<le> attempt + 1" "attempt + 1 \<le> maxRetries" "nat (maxRetries - (attempt + 1)) = k"
    by simp_all
  from Suc.IH [OF this, of "sleep (backoff attempt) (logRequest url s)"]
  show ?case
    by (auto simp: step sleep_def logRequest_def replicate_append_same)
qed

text \<open>
  Claim C4. With the retry cap \<open>r\<close>, a free slot and a server that answers every request
  with status 500, \<open>fetchWithRateLimit\<close> returns, its result has status 500, and it has sent
  exactly \<open>r + 1\<close> requests.
\<close>

theorem retries_500:
  assumes "0 \<le> r" and "activeRequests s < MAX_CONCURRENT" and "always500 net url"
  shows "\<exists>res s'. fetchWithRateLimit net url r s = Some (Inr res, s')
     \<and> fr_status res = 500
     \<and> requests s' = requests s @ replicate (nat r + 1) url"
proof -
  from assms(2) obtain s1 where s1: "rateLimit s = Some s1" "requests s1 = requests s"
    by (auto simp: rateLimit_def Let_def)
  from attemptLoop_500 [OF assms(3), of 0 r "nat r" s1] assms(1)
  obtain res s2 where "attemptLoop net url r 0 s1 = (Inr res, s2)" "fr_status res = 500"
    "requests s2 = requests s1 @ replicate (nat r + 1) url"
    by auto
  then show ?thesis
    by (simp add: fetchWithRateLimit_def s1 releaseSlot_def)
qed

theorem retries_500_witness:
  "(0::int) \<le> 3 \<and> activeRequests idle < MAX_CONCURRENT \<and> always500 server500 (js ''u'')
   \<and> (\<exists>res s'. fetchWithRateLimit server500 (js ''u'') 3 idle = Some (Inr res, s')
        \<and> fr_status res = 500
        \<and> requests s' = requests idle @ replicate (nat 3 + 1) (js ''u''))"
proof -
  have h1: "(0::int) \<le> 3" by simp
  have h2: "activeRequests idle < MAX_CONCURRENT" by (simp add: idle_def MAX_CONCURRENT_def)
  have h3: "always500 server500 (js ''u'')" by (simp add: always500_def server500_def)
  from retries_500 [OF h1 h2 h3] h1 h2 h3 show ?thesis by blast
qed

section \<open>The chain of candidate files\<close>



















section \<open>The pipeline\<close>

lemma active_unchanged:
  "activeRequests (logRequest url s) = activeRequests s"
  "activeRequests (sleep ms s) = activeRequests s"
  by (simp_all add: logRequest_def sleep_def)

lemma attemptLoop_active:
  "activeRequests (snd (attemptLoop net url maxRetries attempt s)) = activeRequests s"
proof (induction net url maxRetries attempt s rule: attemptLoop.induct)
  case (1 net url maxRetries attempt s)
  show ?case
    using 1 by (subst attemptLoop.simps) (auto simp: active_unchanged split: outcome.splits)
qed

lemma fetchWithRateLimit_returns:
  assumes "activeRequests s < MAX_CONCURRENT"
  shows "\<exists>res s'. fetchWithRateLimit net url maxRetries s = Some (res, s')
     \<and> activeRequests s' < MAX_CONCURRENT"
proof -
  from assms obtain s1 where s1: "rateLimit s = Some s1" "activeRequests s1 = activeRequests s + 1"
    by (auto simp: rateLimit_def Let_def)
  obtain res s2 where l: "attemptLoop net url maxRetries 0 s1 = (res, s2)"
    by (cases "attemptLoop net url maxRetries 0 s1")
  from attemptLoop_active [of net url maxRetries 0 s1] l
  have "activeRequests s2 = activeRequests s + 1" by (simp add: s1)
  with assms show ?thesis
    by (simp add: fetchWithRateLimit_def s1 l releaseSlot_def MAX_CONCURRENT_def)
qed

lemma fetchLawHtml_returns:
  assumes "activeRequests s < MAX_CONCURRENT"
  shows "\<exists>res s'. fetchLawHtml net code s = Some (res, s') \<and> activeRequests s' < MAX_CONCURRENT"
proof -
  let ?u1 = "js ''https://www.diputados.gob.mx/LeyesBiblio/ref/'' @ code @ js ''.htm''"
  let ?u2 = "js ''https://www.diputados.gob.mx/LeyesBiblio/ref/'' @ code @ js ''_ref.htm''"
  from fetchWithRateLimit_returns [OF assms, of net ?u1 3]
  obtain r1 s1 where f1: "fetchWithRateLimit net ?u1 3 s = Some (r1, s1)"
    and a1: "activeRequests s1 < MAX_CONCURRENT" by blast
  from fetchWithRateLimit_returns [OF a1, of net ?u2 3]
  obtain r2 s2 where f2: "fetchWithRateLimit net ?u2 3 s1 = Some (r2, s2)"
    and a2: "activeRequests s2 < MAX_CONCURRENT" by blast
  show ?thesis
    by (cases r1; cases r2) (auto simp: fetchLawHtml_def f1 f2 a1 a2)
qed

lemma fallback_one_provision: "provisions (createFallbackSeed law) = [fallbackProvision law]"
  by (simp add: createFallbackSeed_def)

lemma storeParsed_seed:
  "seeds (storeParsed law html st) (law_id law)
     = Some (if provisions (parseMexicanHtml html law) = [] then createFallbackSeed law
             else parseMexicanHtml html law)"
  by (simp add: storeParsed_def writeSeed_def)


lemma processLaw_turn:
  assumes free: "activeRequests (lim st) < MAX_CONCURRENT"
    and turn: "\<not> (skipFetch \<and> seeds st (law_id law) \<noteq> None)"
  shows "\<exists>st' d. processLaw net skipFetch law st = Some st'
     \<and> seeds st' (law_id law) = Some d
     \<and> provisions d \<noteq> []
     \<and> (cachedPage skipFetch law st = None
          \<and> (\<exists>result l. fetchLawHtml net (law_code law) (lim st) = Some (Inr result, l)
                \<and> fr_status result \<noteq> 200)
        \<longrightarrow> d = createFallbackSeed law)
     \<and> (cachedPage skipFetch law st = None
          \<and> (\<exists>e l. fetchLawHtml net (law_code law) (lim st) = Some (Inl e, l))
        \<longrightarrow> d = createFallbackSeed law)
     \<and> (\<forall>html. (cachedPage skipFetch law st = Some html
                 \<or> cachedPage skipFetch law st = None
                   \<and> (\<exists>result l. fetchLawHtml net (law_code law) (lim st) = Some (Inr result, l)
                         \<and> fr_status result = 200 \<and> fr_body result = html))
          \<longrightarrow> (if provisions (parseMexicanHtml html law) = [] then d = createFallbackSeed law
               else d = parseMexicanHtml html law))"
proof -
  from fetchLawHtml_returns [OF free, of net "law_code law"]
  obtain res l where f: "fetchLawHtml net (law_code law) (lim st) = Some (res, l)" by blast
  show ?thesis
  proof (cases "cachedPage skipFetch law st")
    case (Some html)
    with turn show ?thesis
      by (auto simp: processLaw_def cachedPage_def storeParsed_seed fallback_one_provision
          split: if_splits)
  next
    case None
    show ?thesis
    proof (cases res)
      case (Inl e)
      with None turn f show ?thesis
        by (auto simp: processLaw_def cachedPage_def writeSeed_def fallback_one_provision
            split: if_splits)
    next
      case (Inr result)
      with None turn f show ?thesis
        by (auto simp: processLaw_def cachedPage_def writeSeed_def storeParsed_seed
            fallback_one_provision split: if_splits)
    qed
  qed
qed






lemma processLaw_frame:
  assumes "processLaw net skipFetch law st = Some st'"
  shows "k \<noteq> law_id law \<Longrightarrow> seeds st' k = seeds st k"
  using assms
  by (auto simp: processLaw_def storeParsed_def writeSeed_def
      split: if_splits option.splits sum.splits prod.splits)

lemma processLaw_free:
  assumes "processLaw net skipFetch law st = Some st'"
    and "activeRequests (lim st) < MAX_CONCURRENT"
  shows "activeRequests (lim st') < MAX_CONCURRENT"
proof -
  from fetchLawHtml_returns [OF assms(2), of net "law_code law"]
  obtain res l where "fetchLawHtml net (law_code law) (lim st) = Some (res, l)"
    "activeRequests l < MAX_CONCURRENT" by blast
  with assms show ?thesis
    by (auto simp: processLaw_def storeParsed_def writeSeed_def
        split: if_splits option.splits sum.splits)
qed

lemma processLaw_seeded:
  assumes "activeRequests (lim st) < MAX_CONCURRENT" and "cacheSound st (law_id law)"
  shows "\<exists>st'. processLaw net skipFetch law st = Some st' \<and> seeded st' (law_id law)"
proof (cases "skipFetch \<and> seeds st (law_id law) \<noteq> None")
  case True
  with assms(2) show ?thesis
    by (auto simp: processLaw_def seeded_def cacheSound_def)
next
  case False
  from processLaw_turn [OF assms(1) False, of net] show ?thesis
    by (auto simp: seeded_def)
qed

lemma processLaw_sound:
  assumes "processLaw net skipFetch law st = Some st'"
    and "activeRequests (lim st) < MAX_CONCURRENT" and "cacheSound st (law_id law)"
  shows "(cacheSound st k \<longrightarrow> cacheSound st' k) \<and> (seeded st k \<longrightarrow> seeded st' k)"
proof (cases "k = law_id law")
  case True
  from processLaw_seeded [OF assms(2,3), of net skipFetch] assms(1)
  have "seeded st' (law_id law)" by auto
  with True show ?thesis by (auto simp: seeded_def cacheSound_def split: option.splits)
next
  case False
  from processLaw_frame [OF assms(1) False] show ?thesis
    by (simp add: seeded_def cacheSound_def)
qed

lemma all_laws_seeded:
  assumes "activeRequests (lim st) < MAX_CONCURRENT"
    and "list_all (\<lambda>law. cacheSound st (law_id law)) laws"
  shows "\<exists>st'. fetchAndParseLaws net laws skipFetch st = Some st'
     \<and> list_all (\<lambda>law. seeded st' (law_id law)) laws
     \<and> (\<forall>k. seeded st k \<longrightarrow> seeded st' k)"
  using assms
proof (induction laws arbitrary: st)
  case Nil
  show ?case by simp
next
  case (Cons law laws)
  from Cons.prems have cs: "cacheSound st (law_id law)" by simp
  from processLaw_seeded [OF Cons.prems(1) cs, of net skipFetch]
  obtain st1 where p: "processLaw net skipFetch law st = Some st1" and s1: "seeded st1 (law_id law)"
    by blast
  have free1: "activeRequests (lim st1) < MAX_CONCURRENT"
    by (rule processLaw_free [OF p Cons.prems(1)])
  have keep: "\<And>k. (cacheSound st k \<longrightarrow> cacheSound st1 k) \<and> (seeded st k \<longrightarrow> seeded st1 k)"
    by (rule processLaw_sound [OF p Cons.prems(1) cs])
  from Cons.prems(2) keep have "list_all (\<lambda>law. cacheSound st1 (law_id law)) laws"
    by (auto simp: list_all_iff)
  from Cons.IH [OF free1 this]
  obtain st' where r: "fetchAndParseLaws net laws skipFetch st1 = Some st'"
    and all: "list_all (\<lambda>law. seeded st' (law_id law)) laws"
    and mono: "\<forall>k. seeded st1 k \<longrightarrow> seeded st' k" by blast
  from s1 mono have "seeded st' (law_id law)" by blast
  moreover from keep mono have "\<forall>k. seeded st k \<longrightarrow> seeded st' k" by blast
  ultimately show ?case using p r all by simp
qed

section \<open>Concurrent callers\<close>

lemmas sched_ev = callers_def sstep_def enter_def inFlight_def race_def
  MAX_CONCURRENT_def MIN_DELAY_MS_def

text \<open>
  Claim C2, which the source does not keep. The claim: in every interleaving of callers of
  \<open>fetchWithRateLimit\<close>, the requests in flight, counted by \<open>activeRequests\<close>, never
  exceed \<open>MAX_CONCURRENT = 5\<close>. Six callers call in the same millisecond. The first
  passes at once; the five others pass the test of the polling loop, with one request in
  flight, and wait for the timer that spaces the requests; 300 milliseconds later each of
  them increments the counter without testing it again: six requests are in flight.
\<close>

theorem six_requests_in_flight:
  "map_option (\<lambda>w. (s_active w, inFlight w, s_pcs w)) (srun (callers 6 1000) race)
   = Some (6, 6, [InFlight, InFlight, InFlight, InFlight, InFlight, InFlight])"
  by (simp add: sched_ev numeral_eq_Suc)

section \<open>The parser on marked lines\<close>

subsection \<open>Reference keys of article labels\<close>

lemmas fixture_ev = marker_def MARKER_def capturedLabel_def termino_def terminoItem_def
  defArticle_def defPage_def

text \<open>
  Claim C5. The labels that the article marker expression captures from the markers
  \<open>Articulo 1o.\<close>, \<open>Articulo 1.\<close> and \<open>ARTICULO 1-\<close> (written with the accented i of the
  source, code units 237 and 205) are \<open>1o\<close>, \<open>1\<close> and \<open>1\<close>, and \<open>normalizeArticleRef\<close> sends
  all three to the key \<open>art1\<close>. The labels \<open>211 Bis 1\<close> and
  \<open>212\<close> get the distinct keys \<open>art211bis1\<close> and \<open>art212\<close>; the marker expression captures
  them once the marker ends with its full stop or dash.
\<close>

theorem article_label_keys:
  "map capturedLabel [marker ''1o.'', marker ''1.'', MARKER ''1-'']
     = [Some (js ''1o''), Some (js ''1''), Some (js ''1'')] \<and>
   map normalizeArticleRef [js ''1o'', js ''1'', js ''1''] = [js ''art1'', js ''art1'', js ''art1''] \<and>
   map capturedLabel [marker ''211 Bis 1.'', marker ''212.''] = [Some (js ''211 Bis 1''), Some (js ''212'')] \<and>
   map normalizeArticleRef [js ''211 Bis 1'', js ''212''] = [js ''art211bis1'', js ''art212''] \<and>
   js ''art211bis1'' \<noteq> js ''art212''"
  by (simp only: fixture_ev lean parse_ev cong: lean_cong)

lemma marker_needs_terminator:
  "map capturedLabel [marker ''211 Bis 1'', marker ''212''] = [None, None]"
  by (simp only: fixture_ev lean parse_ev cong: lean_cong)

subsection \<open>The definition of an enumerated term\<close>

lemma match_termino:
  "run False [R defRe] \<lparr>pos = p, prev = pv, rest = terminoItem @ after, caps = []\<rparr>
   = Some \<lparr>pos = p + 24, prev = Some 59, rest = after,
            caps = [(3, js ''significado;''), (2, termino), (1, js ''I'')]\<rparr>"
  by (simp add: defRe_def terminoItem_def termino_def js_def plusR_def word_def ws_def step_def
      inSet_def eqc_def isSpace_def)

lemma roman_class: "inSet False False [Ch 73, Ch 86, Ch 88, Ch 76, Ch 67] c = isRoman c"
  by (auto simp: inSet_def eqc_def isRoman_def)

lemma roman_not_stop: "isRoman c \<Longrightarrow> c \<noteq> 46"
  by (auto simp: isRoman_def)

lemma star_roman_fails:
  "rest st = s \<Longrightarrow> (case dropWhile isRoman s of [] \<Rightarrow> True | d # ds \<Rightarrow> d \<noteq> 46) \<Longrightarrow>
   run False (R (Star True (Cls False [Ch 73, Ch 86, Ch 88, Ch 76, Ch 67])) # CloseI i p0 s0
              # R (Cat (Lit [46]) r2) # k) st = None"
proof (induction s arbitrary: st)
  case Nil
  then show ?case by simp
next
  case (Cons c cs)
  show ?case
  proof (cases "isRoman c")
    case True
    have "rest (step st c cs) = cs" by (simp add: step_def)
    from Cons.IH [OF this] Cons.prems(2) True
    have "run False (R (Star True (Cls False [Ch 73, Ch 86, Ch 88, Ch 76, Ch 67])) # CloseI i p0 s0
              # R (Cat (Lit [46]) r2) # k) (step st c cs) = None" by simp
    with Cons.prems(1) True roman_not_stop [OF True] show ?thesis
      by (simp add: roman_class eqc_def)
  next
    case False
    with Cons.prems show ?thesis by (simp add: roman_class eqc_def)
  qed
qed

lemma defRe_fails:
  "\<not> startsRomanStop s \<Longrightarrow> run False [R defRe] \<lparr>pos = p, prev = pv, rest = s, caps = []\<rparr> = None"
proof (cases s)
  case Nil
  then show ?thesis by (simp add: defRe_def plusR_def)
next
  case (Cons c cs)
  assume n: "\<not> startsRomanStop s"
  show ?thesis
  proof (cases "isRoman c")
    case False
    with Cons show ?thesis by (simp add: defRe_def plusR_def roman_class)
  next
    case True
    with n Cons have "case dropWhile isRoman cs of [] \<Rightarrow> True | d # ds \<Rightarrow> d \<noteq> 46"
      by (cases "dropWhile isRoman cs") (simp_all add: startsRomanStop_def del: dropWhile_eq_Nil_conv)
    from star_roman_fails [OF _ this, where st = "step \<lparr>pos = p, prev = pv, rest = c # cs, caps = []\<rparr> c cs"]
    show ?thesis using True Cons
      by (simp add: defRe_def plusR_def word_def js_def roman_class step_def del: run.simps(9))
  qed
qed

lemma romanStop_Cons: "romanStop cs \<Longrightarrow> romanStop (c # cs)"
  by (cases cs) auto

lemma starts_romanStop: "startsRomanStop s \<Longrightarrow> romanStop s"
proof (induction s)
  case Nil
  then show ?case by (simp add: startsRomanStop_def)
next
  case (Cons c cs)
  show ?case
  proof (cases cs)
    case Nil
    with Cons.prems show ?thesis by (simp add: startsRomanStop_def)
  next
    case (Cons b bs)
    show ?thesis
    proof (cases "isRoman b")
      case True
      with Cons.prems Cons have "startsRomanStop cs" by (simp add: startsRomanStop_def)
      from Cons.IH [OF this] show ?thesis by (rule romanStop_Cons)
    next
      case False
      with Cons.prems Cons show ?thesis by (simp add: startsRomanStop_def)
    qed
  qed
qed

lemma starts_inside:
  "b \<noteq> [] \<Longrightarrow> \<not> isRoman (last b) \<Longrightarrow> \<not> romanStop b \<Longrightarrow> \<not> startsRomanStop (b @ x)"
proof (induction b)
  case Nil
  then show ?case by simp
next
  case (Cons c b)
  show ?case
  proof (cases b)
    case Nil
    with Cons.prems show ?thesis by (simp add: startsRomanStop_def)
  next
    case (Cons e b')
    show ?thesis
    proof (cases "isRoman e")
      case True
      from Cons.prems Cons have "\<not> startsRomanStop (b @ x)"
        by (intro Cons.IH) auto
      with True Cons show ?thesis by (simp add: startsRomanStop_def)
    next
      case False
      with Cons.prems Cons show ?thesis by (auto simp: startsRomanStop_def)
    qed
  qed
qed

lemma execFrom_none: "\<not> romanStop s \<Longrightarrow> execFrom False defRe p pv s = []"
proof (induction s arbitrary: p pv)
  case Nil
  show ?case by simp
next
  case (Cons c cs)
  from Cons.prems have "\<not> startsRomanStop (c # cs)" using starts_romanStop by blast
  from defRe_fails [OF this] have r: "run False [R defRe] \<lparr>pos = p, prev = pv, rest = c # cs, caps = []\<rparr> = None" .
  from Cons.prems have "\<not> romanStop cs" using romanStop_Cons by blast
  from Cons.IH [OF this] r show ?case by simp
qed

lemma execFrom_skip:
  "\<not> romanStop b \<Longrightarrow> b = [] \<or> \<not> isRoman (last b) \<Longrightarrow>
   \<exists>q qv. execFrom False defRe p pv (b @ c # cs) = execFrom False defRe q qv (c # cs)"
proof (induction b arbitrary: p pv)
  case Nil
  show ?case by auto
next
  case (Cons a b)
  from Cons.prems have "\<not> startsRomanStop ((a # b) @ c # cs)" by (intro starts_inside) auto
  then have r: "run False [R defRe] \<lparr>pos = p, prev = pv, rest = a # b @ c # cs, caps = []\<rparr> = None"
    using defRe_fails by simp
  from Cons.prems have "\<not> romanStop b" using romanStop_Cons by blast
  moreover from Cons.prems have "b = [] \<or> \<not> isRoman (last b)" by (auto split: if_splits)
  ultimately obtain q qv where
    "execFrom False defRe (p + 1) (Some a) (b @ c # cs) = execFrom False defRe q qv (c # cs)"
    using Cons.IH by blast
  with r show ?case by auto
qed

lemma definition_of_match:
  "caps m = [(3, js ''significado;''), (2, termino), (1, js ''I'')] \<Longrightarrow>
   definitionOf ref m
     = [\<lparr>def_term = termino, def_text = termino @ js '': significado'', source_provision = Some ref\<rparr>]"
  by (simp only: definitionOf_def semiEndRe_def fixture_ev lean cong: lean_cong)

lemma definitions_in_content:
  assumes "\<not> romanStop before" and "before = [] \<or> \<not> isRoman (last before)" and "\<not> romanStop after"
  shows "definitionsIn (before @ terminoItem @ after) ref
     = [\<lparr>def_term = termino, def_text = termino @ js '': significado'', source_provision = Some ref\<rparr>]"
proof -
  obtain c cs where item: "terminoItem = c # cs" "length cs = 23"
    by (simp add: terminoItem_def termino_def js_def)
  from execFrom_skip [OF assms(1,2), of 0 None c "cs @ after"] obtain q qv where
    skip: "execFrom False defRe 0 None (before @ terminoItem @ after)
           = execFrom False defRe q qv (terminoItem @ after)"
    by (auto simp: item)
  let ?m = "\<lparr>pos = q + 24, prev = Some 59, rest = after,
              caps = [(3, js ''significado;''), (2, termino), (1, js ''I'')]\<rparr>"
  have "execFrom False defRe q qv (c # cs @ after)
        = (q, ?m) # execFrom False defRe (q + 24) (Some 59) (drop 23 (cs @ after))"
    using match_termino [of q qv after] by (simp add: item)
  also have "drop 23 (cs @ after) = after" using item(2) by simp
  also have "execFrom False defRe (q + 24) (Some 59) after = []"
    by (rule execFrom_none [OF assms(3)])
  finally have "execFrom False defRe 0 None (before @ terminoItem @ after) = [(q, ?m)]"
    using skip by (simp add: item)
  then show ?thesis by (simp add: definitionsIn_def execAll_def definition_of_match)
qed

lemmas terms_ev = companyArticle_def bareArticle_def

text \<open>
  The claim C9 does not hold for every article that contains the item. In the first article
  the cue is there, but the enumerated definition starts at the \<open>C.\<close> of \<open>S.A. de C.V.\<close>: one
  definition is emitted, and its term is not the term of the item. The second article
  contains the item and no cue: nothing is emitted.
\<close>

theorem definition_of_another_term:
  "extractArticlesFromText companyArticle
     = ([\<lparr>provision_ref = js ''art2'', p_chapter = None, p_section = js ''2'',
          p_title = js ''Para los efectos de esta Ley, S.'', p_content = companyArticle\<rparr>],
        [\<lparr>def_term = js ''V. se entiende por'',
          def_text = js ''V. se entiende por: I. '' @ termino @ js '': significado'',
          source_provision = Some (js ''art2'')\<rparr>]) \<and>
   extractArticlesFromText bareArticle
     = ([\<lparr>provision_ref = js ''art2'', p_chapter = None, p_section = js ''2'',
          p_title = js ''I.'', p_content = bareArticle\<rparr>], [])"
  by (simp only: terms_ev fixture_ev lean parse_ev cong: lean_cong)

lemma buildArticles_step:
  assumes "articleText lines (startLine b) (case bs of [] \<Rightarrow> fin | b' # bs' \<Rightarrow> startLine b') = content"
    and "15 \<le> length content"
  shows "buildArticles lines fin (b # bs)
     = (provisionOf titleRe (num b) (blk_chapter b) content # fst (buildArticles lines fin bs),
        extractDefinitions content (normalizeArticleRef (num b)) @ snd (buildArticles lines fin bs))"
  using assms by (simp add: Let_def)

lemma buildHtmlArticles_step:
  assumes "take 8000 (stripHtml (substring html (snd a)
             (case as of [] \<Rightarrow> length html | a' # as' \<Rightarrow> snd a'))) = content"
    and "15 \<le> length content"
  shows "buildHtmlArticles html chs cur (a # as)
     = (provisionOf titleReHtml (fst a) (chapterAt chs (snd a) cur) content
          # fst (buildHtmlArticles html chs (chapterAt chs (snd a) cur) as),
        extractDefinitions content (normalizeArticleRef (fst a))
          @ snd (buildHtmlArticles html chs (chapterAt chs (snd a) cur) as))"
proof -
  have n: "\<not> length content < 15" using assms(2) by simp
  show ?thesis by (simp only: buildHtmlArticles.simps Let_def assms(1) n if_False)
qed

text \<open>
  Claim C9, amended. The content of an article matches the cue and is made of a text, the
  item \<open>I. Termino: significado;\<close> (with the accented e of the source) and a text, and in
  neither text a capital among I, V, X, L, C stands directly before a full stop, nor at the
  end of the first. Then the definitions of this content are exactly one, with the term of
  the item, and a turn of the loop of either extractor on an article with this content emits
  this definition with the key of the article as its source provision. A content without the
  cue has no definition.
\<close>

theorem termino_defined_once:
  assumes cue: "test True cueRe (before @ terminoItem @ after)"
    and before: "\<not> romanStop before" "before = [] \<or> \<not> isRoman (last before)"
    and after: "\<not> romanStop after"
  shows
  "extractDefinitions (before @ terminoItem @ after) ref
     = [\<lparr>def_term = termino, def_text = termino @ js '': significado'', source_provision = Some ref\<rparr>]
   \<and> (articleText lines (startLine b) (case bs of [] \<Rightarrow> fin | b' # bs' \<Rightarrow> startLine b')
        = before @ terminoItem @ after
      \<longrightarrow> buildArticles lines fin (b # bs)
          = (provisionOf titleRe (num b) (blk_chapter b) (before @ terminoItem @ after)
               # fst (buildArticles lines fin bs),
             \<lparr>def_term = termino, def_text = termino @ js '': significado'',
               source_provision = Some (normalizeArticleRef (num b))\<rparr>
               # snd (buildArticles lines fin bs))
        \<and> provision_ref (provisionOf titleRe (num b) (blk_chapter b) (before @ terminoItem @ after))
          = normalizeArticleRef (num b))
   \<and> (take 8000 (stripHtml (substring html (snd a)
          (case as of [] \<Rightarrow> length html | a' # as' \<Rightarrow> snd a')))
        = before @ terminoItem @ after
      \<longrightarrow> buildHtmlArticles html chs cur (a # as)
          = (provisionOf titleReHtml (fst a) (chapterAt chs (snd a) cur) (before @ terminoItem @ after)
               # fst (buildHtmlArticles html chs (chapterAt chs (snd a) cur) as),
             \<lparr>def_term = termino, def_text = termino @ js '': significado'',
               source_provision = Some (normalizeArticleRef (fst a))\<rparr>
               # snd (buildHtmlArticles html chs (chapterAt chs (snd a) cur) as)))
   \<and> (\<not> test True cueRe text \<longrightarrow> extractDefinitions text ref = [])"
proof -
  have d: "extractDefinitions (before @ terminoItem @ after) r
     = [\<lparr>def_term = termino, def_text = termino @ js '': significado'', source_provision = Some r\<rparr>]"
    for r
    using cue by (simp add: extractDefinitions_def definitions_in_content [OF before after])
  have l: "15 \<le> length (before @ terminoItem @ after)"
    by (simp add: terminoItem_def termino_def js_def)
  show ?thesis
  proof (intro conjI impI)
    show "extractDefinitions (before @ terminoItem @ after) ref
      = [\<lparr>def_term = termino, def_text = termino @ js '': significado'', source_provision = Some ref\<rparr>]"
      by (rule d)
  next
    assume "articleText lines (startLine b) (case bs of [] \<Rightarrow> fin | b' # bs' \<Rightarrow> startLine b')
        = before @ terminoItem @ after"
    from buildArticles_step [OF this l] show "buildArticles lines fin (b # bs)
          = (provisionOf titleRe (num b) (blk_chapter b) (before @ terminoItem @ after)
               # fst (buildArticles lines fin bs),
             \<lparr>def_term = termino, def_text = termino @ js '': significado'',
               source_provision = Some (normalizeArticleRef (num b))\<rparr>
               # snd (buildArticles lines fin bs))"
      by (simp add: d)
  next
    show "provision_ref (provisionOf titleRe (num b) (blk_chapter b) (before @ terminoItem @ after))
          = normalizeArticleRef (num b)"
      by (simp add: provisionOf_def)
  next
    assume "take 8000 (stripHtml (substring html (snd a)
          (case as of [] \<Rightarrow> length html | a' # as' \<Rightarrow> snd a')))
        = before @ terminoItem @ after"
    from buildHtmlArticles_step [OF this l] show "buildHtmlArticles html chs cur (a # as)
          = (provisionOf titleReHtml (fst a) (chapterAt chs (snd a) cur) (before @ terminoItem @ after)
               # fst (buildHtmlArticles html chs (chapterAt chs (snd a) cur) as),
             \<lparr>def_term = termino, def_text = termino @ js '': significado'',
               source_provision = Some (normalizeArticleRef (fst a))\<rparr>
               # snd (buildHtmlArticles html chs (chapterAt chs (snd a) cur) as))"
      by (simp add: d)
  next
    assume "\<not> test True cueRe text"
    then show "extractDefinitions text ref = []" by (simp add: extractDefinitions_def)
  qed
qed

lemma cue_of_sample: "test True cueRe defArticle"
  by (simp only: fixture_ev lean cueRe_def cong: lean_cong)

theorem termino_defined_once_witness:
  "test True cueRe defArticle
   \<and> extractDefinitions defArticle (js ''art2'')
     = [\<lparr>def_term = termino, def_text = termino @ js '': significado'',
         source_provision = Some (js ''art2'')\<rparr>]"
proof -
  let ?before = "marker ''2.- Para los efectos de esta Ley se entiende por:'' @ [10]"
  have e: "?before @ terminoItem @ [] = defArticle" by (simp add: defArticle_def)
  have c: "test True cueRe (?before @ terminoItem @ [])" unfolding e by (rule cue_of_sample)
  have b1: "\<not> romanStop ?before" by (simp add: marker_def js_def isRoman_def)
  have b2: "?before = [] \<or> \<not> isRoman (last ?before)" by (simp add: isRoman_def)
  have a: "\<not> romanStop []" by simp
  from termino_defined_once [OF c b1 b2 a, of "js ''art2''", THEN conjunct1] cue_of_sample
  show ?thesis unfolding e by simp
qed

lemma definitions_of_sample_article:
  "snd (extractArticlesFromText defArticle)
     = [\<lparr>def_term = termino, def_text = termino @ js '': significado'',
         source_provision = Some (js ''art2'')\<rparr>] \<and>
   snd (extractArticles defPage)
     = [\<lparr>def_term = termino, def_text = termino @ js '': significado'',
         source_provision = Some (js ''art2'')\<rparr>]"
  by (simp only: fixture_ev lean parse_ev html_ev cong: lean_cong)

subsection \<open>The sample law\<close>

lemmas sample_ev = fixture_ev tituloPrimero_def capituloI_def capituloII_def articulo1_def
  articulo2_def articulo3_def primero_def segundo_def sampleLaw_def decreto1_def decreto2_def
  twiceFirst_def

lemma sample_length: "length sampleLaw = 321"
  by (simp only: sample_ev lean cong: lean_cong)

lemma sample_clean: "cleanPdfText sampleLaw = sampleLaw"
  by (simp only: sample_ev lean parse_ev cong: lean_cong)

lemma sample_articles:
  "extractArticlesFromText sampleLaw =
     ([\<lparr>provision_ref = js ''art1'', p_chapter = Some capituloI, p_section = js ''1'',
        p_title = js ''La presente Ley es de orden publico.'', p_content = articulo1\<rparr>,
       \<lparr>provision_ref = js ''art2'', p_chapter = Some capituloI, p_section = js ''2'',
        p_title = js ''Son sujetos de esta Ley los particulares.'',
        p_content = articulo2 @ [10] @ capituloII\<rparr>,
       \<lparr>provision_ref = js ''art3'', p_chapter = Some capituloII, p_section = js ''3'',
        p_title = js ''El Instituto vigilara su cumplimiento.'', p_content = articulo3\<rparr>], [])"
  by (simp only: sample_ev lean parse_ev cong: lean_cong)

lemma sample_transitory:
  "extractTransitoryFromText sampleLaw =
     [\<lparr>provision_ref = js ''trans1'', p_chapter = Some (js ''TRANSITORIOS''),
       p_section = js ''Transitorio 1'', p_title = primero, p_content = primero\<rparr>,
      \<lparr>provision_ref = js ''trans2'', p_chapter = Some (js ''TRANSITORIOS''),
       p_section = js ''Transitorio 2'', p_title = segundo, p_content = segundo\<rparr>]"
  by (simp only: sample_ev lean parse_ev cong: lean_cong)

text \<open>The provisions of the sample law, by evaluation.\<close>

lemma sample_law_provisions:
  "provisions (parseMexicanText sampleLaw law) =
     [\<lparr>provision_ref = js ''art1'', p_chapter = Some capituloI, p_section = js ''1'',
       p_title = js ''La presente Ley es de orden publico.'', p_content = articulo1\<rparr>,
      \<lparr>provision_ref = js ''art2'', p_chapter = Some capituloI, p_section = js ''2'',
       p_title = js ''Son sujetos de esta Ley los particulares.'',
       p_content = articulo2 @ [10] @ capituloII\<rparr>,
      \<lparr>provision_ref = js ''art3'', p_chapter = Some capituloII, p_section = js ''3'',
       p_title = js ''El Instituto vigilara su cumplimiento.'', p_content = articulo3\<rparr>,
      \<lparr>provision_ref = js ''trans1'', p_chapter = Some (js ''TRANSITORIOS''),
       p_section = js ''Transitorio 1'', p_title = primero, p_content = primero\<rparr>,
      \<lparr>provision_ref = js ''trans2'', p_chapter = Some (js ''TRANSITORIOS''),
       p_section = js ''Transitorio 2'', p_title = segundo, p_content = segundo\<rparr>]"
  by (simp add: parseMexicanText_def sample_length sample_clean sample_articles sample_transitory)

text \<open>
  The chapter of a provision is the header in the form the scan gives it: the heading word in
  capitals, one space, and the rest of the line trimmed. The headers of \<open>sampleLaw\<close> are
  written in this form; a header in small letters is not kept letter by letter.
\<close>

lemma header_normal_form:
  "currentChapter (scanLine 0 (js ''  Cap'' @ [237] @ js ''tulo   I '')
      \<lparr>currentChapter = [], transitoryStart = None, articleBlocks = []\<rparr>) = capituloI"
  by (simp only: sample_ev lean parse_ev cong: lean_cong)

subsection \<open>A law of three articles and two transitory clauses\<close>

lemma not_header: "\<not> isHeader l \<Longrightarrow> exec True chapterRe l = None"
  unfolding isHeader_def by blast

lemma scan_header: "isHeader l \<Longrightarrow> scanLine i l st = st\<lparr>currentChapter := headerForm l\<rparr>"
  by (cases "exec True chapterRe l") (simp_all add: scanLine_def isHeader_def headerForm_def)

lemma scan_heading: "isHeading l \<Longrightarrow> scanLine i l st = st\<lparr>transitoryStart := Some i\<rparr>"
  by (simp add: scanLine_def isHeading_def not_header)

lemma scan_marker:
  "isMarker l \<Longrightarrow> transitoryStart st = None \<Longrightarrow>
   scanLine i l st = st\<lparr>articleBlocks := articleBlocks st
     @ [\<lparr>num = labelOf l, startLine = i, blk_chapter = currentChapter st\<rparr>]\<rparr>"
  by (cases "exec True articleStartRe l")
    (simp_all add: scanLine_def isMarker_def not_header labelOf_def capturedLabel_def)

lemma scan_plain:
  "\<not> isHeader l \<Longrightarrow> \<not> isHeading l \<Longrightarrow> \<not> isMarker l \<Longrightarrow> scanLine i l st = st"
  by (cases "exec True articleStartRe l"; cases "transitoryStart st")
    (simp_all add: scanLine_def isMarker_def isHeading_def not_header capturedLabel_def)

lemma scan_ignored:
  "\<not> isHeader l \<Longrightarrow> \<not> isHeading l \<Longrightarrow> transitoryStart st \<noteq> None \<Longrightarrow> scanLine i l st = st"
  by (cases "transitoryStart st") (simp_all add: scanLine_def isHeading_def not_header)

lemma scanLines_append:
  "scanLines i (xs @ ys) st = scanLines (i + length xs) ys (scanLines i xs st)"
  by (induction xs arbitrary: i st) simp_all

lemma nearestHeader_Cons:
  "nearestHeader (l # ls)
     = (case nearestHeader ls of None \<Rightarrow> (if isHeader l then Some l else None) | Some h \<Rightarrow> Some h)"
  by (auto simp: nearestHeader_def split: list.splits)

lemma nearestHeader_append:
  "nearestHeader (xs @ ys)
     = (case nearestHeader ys of None \<Rightarrow> nearestHeader xs | Some h \<Rightarrow> Some h)"
  by (induction xs) (auto simp: nearestHeader_Cons nearestHeader_def split: option.splits list.splits)

lemma nearestHeader_isHeader: "nearestHeader ls = Some h \<Longrightarrow> isHeader h"
proof -
  assume "nearestHeader ls = Some h"
  then have "filter isHeader ls \<noteq> []" "h = last (filter isHeader ls)"
    by (auto simp: nearestHeader_def split: list.splits)
  then have "h \<in> set (filter isHeader ls)" using last_in_set by blast
  then show ?thesis by simp
qed

lemma headerForm_nonempty: "isHeader h \<Longrightarrow> headerForm h \<noteq> []"
  by (cases "exec True chapterRe h") (simp_all add: isHeader_def headerForm_def)

lemma scan_quiet:
  "\<forall>l\<in>set ls. \<not> isMarker l \<and> \<not> isHeading l \<Longrightarrow>
   scanLines i ls st
     = st\<lparr>currentChapter := (case nearestHeader ls of None \<Rightarrow> currentChapter st
                                | Some h \<Rightarrow> headerForm h)\<rparr>"
proof (induction ls arbitrary: i st)
  case Nil
  show ?case by (simp add: nearestHeader_def)
next
  case (Cons l ls)
  from Cons.prems have q: "\<forall>l\<in>set ls. \<not> isMarker l \<and> \<not> isHeading l"
    and l: "\<not> isMarker l" "\<not> isHeading l" by simp_all
  show ?case
  proof (cases "isHeader l")
    case True
    then show ?thesis
      by (simp add: scan_header Cons.IH [OF q] nearestHeader_Cons split: option.splits)
  next
    case False
    with l show ?thesis
      by (simp add: scan_plain Cons.IH [OF q] nearestHeader_Cons split: option.splits)
  qed
qed

lemma scan_after:
  "transitoryStart st = Some t \<Longrightarrow> \<forall>l\<in>set ls. \<not> isHeading l \<Longrightarrow>
   articleBlocks (scanLines i ls st) = articleBlocks st
   \<and> transitoryStart (scanLines i ls st) = Some t"
proof (induction ls arbitrary: i st)
  case Nil
  then show ?case by simp
next
  case (Cons l ls)
  from Cons.prems have h: "\<not> isHeading l" and q: "\<forall>l\<in>set ls. \<not> isHeading l" by simp_all
  show ?case
  proof (cases "isHeader l")
    case True
    have "transitoryStart (st\<lparr>currentChapter := headerForm l\<rparr>) = Some t"
      using Cons.prems(1) by simp
    from Cons.IH [OF this q] True show ?thesis by (simp add: scan_header)
  next
    case False
    with h Cons.prems(1) have "scanLine i l st = st" by (intro scan_ignored) simp_all
    with Cons.IH [OF Cons.prems(1) q] show ?thesis by simp
  qed
qed

lemma scan_to_marker:
  assumes "transitoryStart st = None" and "\<forall>l\<in>set seg. \<not> isMarker l \<and> \<not> isHeading l"
    and "isMarker a"
  shows "scanLines i (seg @ [a]) st
     = st\<lparr>currentChapter := (case nearestHeader seg of None \<Rightarrow> currentChapter st
                                | Some h \<Rightarrow> headerForm h),
           articleBlocks := articleBlocks st
             @ [\<lparr>num = labelOf a, startLine = i + length seg,
                 blk_chapter = (case nearestHeader seg of None \<Rightarrow> currentChapter st
                                | Some h \<Rightarrow> headerForm h)\<rparr>]\<rparr>"
  using assms by (simp add: scanLines_append scan_quiet scan_marker)

lemma chapterBefore_marker:
  "isMarker a \<Longrightarrow>
   (case nearestHeader seg of None \<Rightarrow> chapterBefore pre | Some h \<Rightarrow> headerForm h)
     = chapterBefore (pre @ [a] @ seg)"
  by (auto simp: chapterBefore_def nearestHeader_append nearestHeader_Cons isMarker_def
      split: option.splits)

lemma chapter_field:
  "(if chapterBefore ls = [] then None else Some (chapterBefore ls))
     = map_option headerForm (nearestHeader ls)"
  using nearestHeader_isHeader [of ls] headerForm_nonempty
  by (auto simp: chapterBefore_def split: option.splits)

lemma slice_all: "slice xs 0 (length xs) = xs"
  by (simp add: slice_def)

lemma articleText_slice: "articleText lines a b = blockText (slice lines a b)"
  unfolding articleText_def blockText_def slice_all ..

lemma slice_block: "slice (pre @ [a] @ seg @ post) (length pre) (length pre + Suc (length seg)) = a # seg"
  by (simp add: slice_def)

lemma scan_shape:
  assumes quiet: "\<forall>l\<in>set (s0 @ s1 @ s2 @ s3). \<not> isMarker l \<and> \<not> isHeading l"
    and markers: "isMarker a1" "isMarker a2" "isMarker a3"
    and heading: "isHeading h" "\<forall>l\<in>set post. \<not> isHeading l"
  shows "articleBlocks (scanLines 0 (s0 @ [a1] @ s1 @ [a2] @ s2 @ [a3] @ s3 @ [h] @ post)
            \<lparr>currentChapter = [], transitoryStart = None, articleBlocks = []\<rparr>)
         = [\<lparr>num = labelOf a1, startLine = length s0, blk_chapter = chapterBefore s0\<rparr>,
            \<lparr>num = labelOf a2, startLine = length (s0 @ [a1] @ s1),
              blk_chapter = chapterBefore (s0 @ [a1] @ s1)\<rparr>,
            \<lparr>num = labelOf a3, startLine = length (s0 @ [a1] @ s1 @ [a2] @ s2),
              blk_chapter = chapterBefore (s0 @ [a1] @ s1 @ [a2] @ s2)\<rparr>]
       \<and> transitoryStart (scanLines 0 (s0 @ [a1] @ s1 @ [a2] @ s2 @ [a3] @ s3 @ [h] @ post)
            \<lparr>currentChapter = [], transitoryStart = None, articleBlocks = []\<rparr>)
         = Some (length (s0 @ [a1] @ s1 @ [a2] @ s2 @ [a3] @ s3))"
proof -
  let ?init = "\<lparr>currentChapter = [], transitoryStart = None, articleBlocks = []\<rparr>"
  let ?b1 = "\<lparr>num = labelOf a1, startLine = length s0, blk_chapter = chapterBefore s0\<rparr>"
  let ?b2 = "\<lparr>num = labelOf a2, startLine = length (s0 @ [a1] @ s1),
              blk_chapter = chapterBefore (s0 @ [a1] @ s1)\<rparr>"
  let ?b3 = "\<lparr>num = labelOf a3, startLine = length (s0 @ [a1] @ s1 @ [a2] @ s2),
              blk_chapter = chapterBefore (s0 @ [a1] @ s1 @ [a2] @ s2)\<rparr>"
  from quiet have q0: "\<forall>l\<in>set s0. \<not> isMarker l \<and> \<not> isHeading l"
    and q1: "\<forall>l\<in>set s1. \<not> isMarker l \<and> \<not> isHeading l"
    and q2: "\<forall>l\<in>set s2. \<not> isMarker l \<and> \<not> isHeading l"
    and q3: "\<forall>l\<in>set s3. \<not> isMarker l \<and> \<not> isHeading l" by auto
  have e1: "scanLines 0 (s0 @ [a1]) ?init
      = \<lparr>currentChapter = chapterBefore s0, transitoryStart = None, articleBlocks = [?b1]\<rparr>"
    using scan_to_marker [OF _ q0 markers(1), of ?init 0]
    by (simp add: chapterBefore_def cong: option.case_cong)
  have e2: "scanLines (length (s0 @ [a1])) (s1 @ [a2])
        \<lparr>currentChapter = chapterBefore s0, transitoryStart = None, articleBlocks = [?b1]\<rparr>
      = \<lparr>currentChapter = chapterBefore (s0 @ [a1] @ s1), transitoryStart = None,
         articleBlocks = [?b1, ?b2]\<rparr>"
    using scan_to_marker [OF _ q1 markers(2),
        of "\<lparr>currentChapter = chapterBefore s0, transitoryStart = None, articleBlocks = [?b1]\<rparr>"
           "length (s0 @ [a1])"]
      chapterBefore_marker [OF markers(1), where seg = s1 and pre = s0]
    by (simp cong: option.case_cong)
  have e3: "scanLines (length (s0 @ [a1] @ s1 @ [a2])) (s2 @ [a3])
        \<lparr>currentChapter = chapterBefore (s0 @ [a1] @ s1), transitoryStart = None,
         articleBlocks = [?b1, ?b2]\<rparr>
      = \<lparr>currentChapter = chapterBefore (s0 @ [a1] @ s1 @ [a2] @ s2), transitoryStart = None,
         articleBlocks = [?b1, ?b2, ?b3]\<rparr>"
    using scan_to_marker [OF _ q2 markers(3),
        of "\<lparr>currentChapter = chapterBefore (s0 @ [a1] @ s1), transitoryStart = None,
             articleBlocks = [?b1, ?b2]\<rparr>"
           "length (s0 @ [a1] @ s1 @ [a2])"]
      chapterBefore_marker [OF markers(2), where seg = s2 and pre = "s0 @ [a1] @ s1"]
    by (simp cong: option.case_cong)
  have e4: "scanLines (length (s0 @ [a1] @ s1 @ [a2] @ s2 @ [a3])) (s3 @ [h])
        \<lparr>currentChapter = chapterBefore (s0 @ [a1] @ s1 @ [a2] @ s2), transitoryStart = None,
         articleBlocks = [?b1, ?b2, ?b3]\<rparr>
      = \<lparr>currentChapter = (case nearestHeader s3 of
                              None \<Rightarrow> chapterBefore (s0 @ [a1] @ s1 @ [a2] @ s2)
                            | Some h \<Rightarrow> headerForm h),
         transitoryStart = Some (length (s0 @ [a1] @ s1 @ [a2] @ s2 @ [a3] @ s3)),
         articleBlocks = [?b1, ?b2, ?b3]\<rparr>"
    by (simp add: scanLines_append scan_quiet [OF q3] scan_heading [OF heading(1)]
        cong: option.case_cong)
  have split: "s0 @ [a1] @ s1 @ [a2] @ s2 @ [a3] @ s3 @ [h] @ post
      = (s0 @ [a1]) @ (s1 @ [a2]) @ (s2 @ [a3]) @ (s3 @ [h]) @ post" by simp
  have "scanLines 0 (s0 @ [a1] @ s1 @ [a2] @ s2 @ [a3] @ s3 @ [h] @ post) ?init
      = scanLines (length (s0 @ [a1] @ s1 @ [a2] @ s2 @ [a3] @ s3 @ [h])) post
          \<lparr>currentChapter = (case nearestHeader s3 of
                              None \<Rightarrow> chapterBefore (s0 @ [a1] @ s1 @ [a2] @ s2)
                            | Some h \<Rightarrow> headerForm h),
           transitoryStart = Some (length (s0 @ [a1] @ s1 @ [a2] @ s2 @ [a3] @ s3)),
           articleBlocks = [?b1, ?b2, ?b3]\<rparr>"
    unfolding split scanLines_append [of _ "s0 @ [a1]"] scanLines_append [of _ "s1 @ [a2]"]
      scanLines_append [of _ "s2 @ [a3]"] scanLines_append [of _ "s3 @ [h]"]
    using e1 e2 e3 e4 by (simp add: add.assoc)
  with scan_after [OF _ heading(2),
      of "\<lparr>currentChapter = (case nearestHeader s3 of
                              None \<Rightarrow> chapterBefore (s0 @ [a1] @ s1 @ [a2] @ s2)
                            | Some h \<Rightarrow> headerForm h),
           transitoryStart = Some (length (s0 @ [a1] @ s1 @ [a2] @ s2 @ [a3] @ s3)),
           articleBlocks = [?b1, ?b2, ?b3]\<rparr>"
         "length (s0 @ [a1] @ s1 @ [a2] @ s2 @ [a3] @ s3)"
         "length (s0 @ [a1] @ s1 @ [a2] @ s2 @ [a3] @ s3 @ [h])"]
  show ?thesis by simp
qed

lemma articles_of_shape:
  assumes lines: "splitNL c = s0 @ [a1] @ s1 @ [a2] @ s2 @ [a3] @ s3 @ [h] @ post"
    and quiet: "\<forall>l\<in>set (s0 @ s1 @ s2 @ s3). \<not> isMarker l \<and> \<not> isHeading l"
    and markers: "isMarker a1" "isMarker a2" "isMarker a3"
    and heading: "isHeading h" "\<forall>l\<in>set post. \<not> isHeading l"
    and long: "15 \<le> length (blockText (a1 # s1))" "15 \<le> length (blockText (a2 # s2))"
      "15 \<le> length (blockText (a3 # s3))"
  shows "fst (extractArticlesFromText c)
     = [provisionOf titleRe (labelOf a1) (chapterBefore s0) (blockText (a1 # s1)),
        provisionOf titleRe (labelOf a2) (chapterBefore (s0 @ [a1] @ s1)) (blockText (a2 # s2)),
        provisionOf titleRe (labelOf a3) (chapterBefore (s0 @ [a1] @ s1 @ [a2] @ s2))
          (blockText (a3 # s3))]"
proof -
  let ?lines = "s0 @ [a1] @ s1 @ [a2] @ s2 @ [a3] @ s3 @ [h] @ post"
  have t1: "articleText ?lines (length s0) (length (s0 @ [a1] @ s1)) = blockText (a1 # s1)"
    using slice_block [of s0 a1 s1 "[a2] @ s2 @ [a3] @ s3 @ [h] @ post"]
    by (simp add: articleText_slice add.assoc)
  have t2: "articleText ?lines (length (s0 @ [a1] @ s1)) (length (s0 @ [a1] @ s1 @ [a2] @ s2))
      = blockText (a2 # s2)"
    using slice_block [of "s0 @ [a1] @ s1" a2 s2 "[a3] @ s3 @ [h] @ post"]
    by (simp add: articleText_slice add.assoc)
  have t3: "articleText ?lines (length (s0 @ [a1] @ s1 @ [a2] @ s2))
        (length (s0 @ [a1] @ s1 @ [a2] @ s2 @ [a3] @ s3))
      = blockText (a3 # s3)"
    using slice_block [of "s0 @ [a1] @ s1 @ [a2] @ s2" a3 s3 "[h] @ post"]
    by (simp add: articleText_slice add.assoc)
  from long have n: "\<not> length (blockText (a1 # s1)) < 15" "\<not> length (blockText (a2 # s2)) < 15"
    "\<not> length (blockText (a3 # s3)) < 15" by simp_all
  note shape = scan_shape [OF quiet markers heading]
  show ?thesis
    unfolding extractArticlesFromText_def Let_def lines shape [THEN conjunct1]
      shape [THEN conjunct2] option.case buildArticles.simps list.case ArticleBlock.select_convs
      t1 t2 t3
    using n by simp
qed

lemma transPositions_append:
  "transPositions i (xs @ ys) = transPositions i xs @ transPositions (i + length xs) ys"
  by (induction xs arbitrary: i) simp_all

lemma transPositions_none: "\<forall>l\<in>set ls. \<not> test True transRe l \<Longrightarrow> transPositions i ls = []"
  by (induction ls arbitrary: i) simp_all

lemma transitory_of_shape:
  assumes found: "search True transitorySectionRe c = Some idx"
    and lines: "splitNL (drop idx c) = u0 @ [c1] @ u1 @ [c2] @ u2"
    and quiet: "\<forall>l\<in>set (u0 @ u1 @ u2). \<not> test True transRe l"
    and clauses: "test True transRe c1" "test True transRe c2"
    and long: "15 \<le> length (clauseText (c1 # u1))" "15 \<le> length (clauseText (c2 # u2))"
  shows "extractTransitoryFromText c
     = [transitoryOf 0 (take 80 (trim c1)) (clauseText (c1 # u1)),
        transitoryOf 1 (take 80 (trim c2)) (clauseText (c2 # u2))]"
proof -
  let ?lines = "u0 @ [c1] @ u1 @ [c2] @ u2"
  from quiet have q: "transPositions i u0 = []" "transPositions i u1 = []"
    "transPositions i u2 = []" for i
    by (simp_all add: transPositions_none)
  have p: "transPositions 0 ?lines
      = [(take 80 (trim c1), length u0), (take 80 (trim c2), length (u0 @ [c1] @ u1))]"
    using clauses by (simp add: transPositions_append q)
  have s1: "slice ?lines (length u0) (length (u0 @ [c1] @ u1)) = c1 # u1"
    using slice_block [of u0 c1 u1 "[c2] @ u2"] by (simp add: add.assoc)
  have s2: "slice ?lines (length (u0 @ [c1] @ u1)) (length ?lines) = c2 # u2"
    using slice_block [of "u0 @ [c1] @ u1" c2 u2 "[]"] by (simp add: add.assoc)
  from long have n: "\<not> length (clauseText (c1 # u1)) < 15" "\<not> length (clauseText (c2 # u2)) < 15"
    by simp_all
  show ?thesis
    unfolding extractTransitoryFromText_def found option.case Let_def lines p
      buildTransitory.simps list.case snd_conv fst_conv s1 s2 clauseText_def [symmetric]
    using n by simp
qed

text \<open>
  Claim C8, amended. The text has at least 200 code units. The lines of the cleaned text
  are: lines that are neither article markers nor transitory headings, among them the
  headers, with three article markers between them, then a transitory heading, and no second
  heading after it; the block of each article, from its marker to the next marker or to the
  heading, has at least 15 code units when tidied. The section expression finds the
  transitory section, and from there the lines contain two lines that an ordinal word marks,
  each clause of at least 15 code units. Then \<open>parseMexicanText\<close> returns three regular
  provisions in the order of the text, with the keys of their labels, followed by two
  transitory provisions with the keys \<open>trans1\<close> and \<open>trans2\<close>. The chapter of a regular
  provision is the nearest header before its marker in the form the scan gives it, the
  heading word in capitals, one space, the rest of the line trimmed, at most 200 code units;
  it is absent when no header precedes.
\<close>

theorem three_articles_two_clauses:
  assumes len: "200 \<le> length text"
    and lines: "splitNL (cleanPdfText text) = s0 @ [a1] @ s1 @ [a2] @ s2 @ [a3] @ s3 @ [h] @ post"
    and quiet: "\<forall>l\<in>set (s0 @ s1 @ s2 @ s3). \<not> isMarker l \<and> \<not> isHeading l"
    and markers: "isMarker a1" "isMarker a2" "isMarker a3"
    and heading: "isHeading h" "\<forall>l\<in>set post. \<not> isHeading l"
    and long: "15 \<le> length (blockText (a1 # s1))" "15 \<le> length (blockText (a2 # s2))"
      "15 \<le> length (blockText (a3 # s3))"
    and found: "search True transitorySectionRe (cleanPdfText text) = Some idx"
    and tlines: "splitNL (drop idx (cleanPdfText text)) = u0 @ [c1] @ u1 @ [c2] @ u2"
    and tquiet: "\<forall>l\<in>set (u0 @ u1 @ u2). \<not> test True transRe l"
    and clauses: "test True transRe c1" "test True transRe c2"
    and tlong: "15 \<le> length (clauseText (c1 # u1))" "15 \<le> length (clauseText (c2 # u2))"
  shows
  "map provision_ref (provisions (parseMexicanText text law))
     = [normalizeArticleRef (labelOf a1), normalizeArticleRef (labelOf a2),
        normalizeArticleRef (labelOf a3), js ''trans1'', js ''trans2'']
   \<and> map p_chapter (provisions (parseMexicanText text law))
     = [map_option headerForm (nearestHeader s0),
        map_option headerForm (nearestHeader (s0 @ [a1] @ s1)),
        map_option headerForm (nearestHeader (s0 @ [a1] @ s1 @ [a2] @ s2)),
        Some (js ''TRANSITORIOS''), Some (js ''TRANSITORIOS'')]
   \<and> map p_content (provisions (parseMexicanText text law))
     = [blockText (a1 # s1), blockText (a2 # s2), blockText (a3 # s3),
        take 8000 (clauseText (c1 # u1)), take 8000 (clauseText (c2 # u2))]"
proof -
  have p: "provisions (parseMexicanText text law)
      = fst (extractArticlesFromText (cleanPdfText text))
        @ extractTransitoryFromText (cleanPdfText text)"
    using len by (simp add: parseMexicanText_def Let_def)
  have d: "decimal (Suc 0) = [49]" "decimal (Suc (Suc 0)) = [50]" "decimal 2 = [50]"
    by (subst decimal.simps, simp)+
  show ?thesis
    unfolding p articles_of_shape [OF lines quiet markers heading long]
      transitory_of_shape [OF found tlines tquiet clauses tlong]
    by (simp add: provisionOf_def transitoryOf_def chapter_field d js_def)
qed

subsection \<open>The sample law, and laws of the same shape\<close>

lemmas shape_ev = isHeader_def headerForm_def isHeading_def isMarker_def labelOf_def
  nearestHeader_def chapterBefore_def blockText_def clauseText_def last.simps
  capituloLower_def shortLaw_def looseLaw_def

lemma sample_lines:
  "splitNL sampleLaw = [tituloPrimero, capituloI] @ [articulo1] @ [] @ [articulo2] @ [capituloII]
     @ [articulo3] @ [] @ [js ''TRANSITORIOS''] @ [primero, segundo]"
  by (simp only: sample_ev lean cong: lean_cong)

lemma sample_headers: "isHeader tituloPrimero" "isHeader capituloI" "isHeader capituloII"
  by (simp_all only: sample_ev shape_ev lean cong: lean_cong)

lemma sample_markers: "isMarker articulo1" "isMarker articulo2" "isMarker articulo3"
  by (simp_all only: sample_ev shape_ev lean cong: lean_cong)

lemma sample_heading:
  "isHeading (js ''TRANSITORIOS'')" "\<not> isHeading primero" "\<not> isHeading segundo"
  by (simp_all only: sample_ev shape_ev lean cong: lean_cong)

lemma sample_blocks:
  "blockText [articulo1] = articulo1" "blockText [articulo2, capituloII] = articulo2 @ [10] @ capituloII"
  "blockText [articulo3] = articulo3"
  by (simp_all only: sample_ev shape_ev lean parse_ev cong: lean_cong)

lemma sample_section: "search True transitorySectionRe sampleLaw = Some 194"
  by (simp only: sample_ev lean transitorySectionRe_def [THEN run_cong] cong: lean_cong)

lemma sample_section_lines:
  "splitNL (drop 194 sampleLaw) = [[], js ''TRANSITORIOS''] @ [primero] @ [] @ [segundo] @ []"
  by (simp only: sample_ev lean cong: lean_cong)

lemma sample_clauses:
  "test True transRe primero" "test True transRe segundo"
  "\<not> test True transRe []" "\<not> test True transRe (js ''TRANSITORIOS'')"
  "clauseText [primero] = primero" "clauseText [segundo] = segundo"
  by (simp_all only: sample_ev shape_ev lean cong: lean_cong)

lemma sample_keys:
  "normalizeArticleRef (labelOf articulo1) = js ''art1''"
  "normalizeArticleRef (labelOf articulo2) = js ''art2''"
  "normalizeArticleRef (labelOf articulo3) = js ''art3''"
  by (simp_all only: sample_ev shape_ev lean parse_ev cong: lean_cong)

lemma sample_chapters:
  "map_option headerForm (nearestHeader [tituloPrimero, capituloI]) = Some capituloI"
  "map_option headerForm (nearestHeader ([tituloPrimero, capituloI] @ [articulo1] @ []))
     = Some capituloI"
  "map_option headerForm
     (nearestHeader ([tituloPrimero, capituloI] @ [articulo1] @ [] @ [articulo2] @ [capituloII]))
     = Some capituloII"
  by (simp_all only: sample_ev shape_ev lean cong: lean_cong)

lemma sample_lengths:
  "length articulo1 = 49" "length (articulo2 @ [10] @ capituloII) = 66" "length articulo3 = 51"
  "length primero = 58" "length segundo = 54"
  by (simp_all only: sample_ev lean cong: lean_cong)

theorem three_articles_two_clauses_witness:
  "map provision_ref (provisions (parseMexicanText sampleLaw law0))
     = [js ''art1'', js ''art2'', js ''art3'', js ''trans1'', js ''trans2'']
   \<and> map p_chapter (provisions (parseMexicanText sampleLaw law0))
     = [Some capituloI, Some capituloI, Some capituloII,
        Some (js ''TRANSITORIOS''), Some (js ''TRANSITORIOS'')]
   \<and> map p_content (provisions (parseMexicanText sampleLaw law0))
     = [articulo1, articulo2 @ [10] @ capituloII, articulo3, primero, segundo]"
proof -
  have len: "200 \<le> length sampleLaw" by (simp add: sample_length)
  have lines: "splitNL (cleanPdfText sampleLaw) = [tituloPrimero, capituloI] @ [articulo1] @ []
      @ [articulo2] @ [capituloII] @ [articulo3] @ [] @ [js ''TRANSITORIOS''] @ [primero, segundo]"
    unfolding sample_clean by (rule sample_lines)
  have quiet: "\<forall>l\<in>set ([tituloPrimero, capituloI] @ [] @ [capituloII] @ []).
      \<not> isMarker l \<and> \<not> isHeading l"
    using sample_headers by (simp add: isMarker_def isHeading_def)
  have post: "\<forall>l\<in>set [primero, segundo]. \<not> isHeading l" using sample_heading by simp
  have long: "15 \<le> length (blockText [articulo1])" "15 \<le> length (blockText [articulo2, capituloII])"
    "15 \<le> length (blockText [articulo3])"
    unfolding sample_blocks sample_lengths by simp_all
  have found: "search True transitorySectionRe (cleanPdfText sampleLaw) = Some 194"
    unfolding sample_clean by (rule sample_section)
  have tlines: "splitNL (drop 194 (cleanPdfText sampleLaw))
      = [[], js ''TRANSITORIOS''] @ [primero] @ [] @ [segundo] @ []"
    unfolding sample_clean by (rule sample_section_lines)
  have tquiet: "\<forall>l\<in>set ([[], js ''TRANSITORIOS''] @ [] @ []). \<not> test True transRe l"
    using sample_clauses(3,4) by simp
  have tlong: "15 \<le> length (clauseText [primero])" "15 \<le> length (clauseText [segundo])"
    unfolding sample_clauses sample_lengths by simp_all
  from three_articles_two_clauses [OF len lines quiet sample_markers sample_heading(1) post long
      found tlines tquiet sample_clauses(1,2) tlong, of law0]
  show ?thesis
    by (simp only: sample_keys sample_chapters sample_blocks sample_clauses(5,6)
        sample_lengths take_all [of _ 8000] simp_thms)
qed

lemma short_length: "length shortLaw = 176"
  by (simp only: sample_ev shape_ev lean cong: lean_cong)

lemma loose_length: "length looseLaw = 319"
  by (simp only: sample_ev shape_ev lean cong: lean_cong)

lemma loose_clean: "cleanPdfText looseLaw = looseLaw"
  by (simp only: sample_ev shape_ev lean parse_ev cong: lean_cong)

lemma loose_articles:
  "map provision_ref (fst (extractArticlesFromText looseLaw)) = [js ''art1'', js ''art2'', js ''art3'']"
  "map p_chapter (fst (extractArticlesFromText looseLaw))
     = [Some capituloI, Some capituloI, Some capituloI]"
  by (simp_all only: sample_ev shape_ev lean parse_ev cong: lean_cong)

lemma loose_transitory:
  "map provision_ref (extractTransitoryFromText looseLaw) = [js ''trans2'']"
  "map p_chapter (extractTransitoryFromText looseLaw) = [Some (js ''TRANSITORIOS'')]"
  by (simp_all only: sample_ev shape_ev lean parse_ev cong: lean_cong)

text \<open>
  The claim C8 does not hold for every text of the shape it describes. \<open>shortLaw\<close> has a
  header, three articles, the heading and two clauses in 176 code units: it is below the 200
  that \<open>parseMexicanText\<close> asks for, and no provision is returned. \<open>looseLaw\<close> is long enough; its
  header is written in small letters and its first clause has 13 code units: the chapter of
  its articles is not the header line but the header in capitals, and the only transitory
  provision is the second clause, with the key \<open>trans2\<close>.
\<close>

theorem laws_of_the_shape_parsed_otherwise:
  "provisions (parseMexicanText shortLaw law0) = []
   \<and> map provision_ref (provisions (parseMexicanText looseLaw law0))
     = [js ''art1'', js ''art2'', js ''art3'', js ''trans2'']
   \<and> map p_chapter (provisions (parseMexicanText looseLaw law0))
     = [Some capituloI, Some capituloI, Some capituloI, Some (js ''TRANSITORIOS'')]
   \<and> capituloLower \<noteq> capituloI"
proof -
  have "provisions (parseMexicanText shortLaw law0) = []"
    by (simp add: parseMexicanText_def short_length emptyLaw_def)
  moreover have "provisions (parseMexicanText looseLaw law0)
      = fst (extractArticlesFromText looseLaw) @ extractTransitoryFromText looseLaw"
    by (simp add: parseMexicanText_def loose_length loose_clean Let_def)
  moreover have "capituloLower \<noteq> capituloI"
    by (simp add: capituloLower_def capituloI_def js_def)
  ultimately show ?thesis by (simp add: loose_articles loose_transitory)
qed

subsection \<open>Reference keys within one law\<close>

lemma twice_length: "length twiceFirst = 241"
  by (simp only: sample_ev lean cong: lean_cong)

lemma twice_clean: "cleanPdfText twiceFirst = twiceFirst"
  by (simp only: sample_ev lean parse_ev cong: lean_cong)

lemma twice_articles:
  "map provision_ref (fst (extractArticlesFromText twiceFirst)) = [js ''art1'', js ''art1'']"
  by (simp only: sample_ev lean parse_ev cong: lean_cong)

lemma twice_transitory: "extractTransitoryFromText twiceFirst = []"
  by (simp only: sample_ev lean parse_ev cong: lean_cong)

text \<open>
  A decree that amends two laws numbers its own articles from 1 twice. Both markers give
  the key \<open>art1\<close>, and nothing after the extraction removes or renames a provision.
\<close>

theorem same_key_twice:
  "map provision_ref (provisions (parseMexicanText twiceFirst law0)) = [js ''art1'', js ''art1''] \<and>
   \<not> distinct (map provision_ref (provisions (parseMexicanText twiceFirst law0)))"
  by (simp add: parseMexicanText_def Let_def twice_length twice_clean twice_articles twice_transitory js_def)



lemma decimal_nonempty: "decimal n \<noteq> []"
  by (subst decimal.simps) simp

lemma decimal_last: "last (decimal n) = 48 + n mod 10"
  by (subst decimal.simps) simp

lemma decimal_butlast: "butlast (decimal n) = (if n < 10 then [] else decimal (n div 10))"
  by (subst decimal.simps) simp

lemma decimal_inj: "decimal n = decimal m \<Longrightarrow> n = m"
proof (induction n arbitrary: m rule: decimal.induct)
  case (1 n)
  from 1(2) have l: "n mod 10 = m mod 10"
    using decimal_last [of n] decimal_last [of m] by simp
  from 1(2) have b: "butlast (decimal n) = butlast (decimal m)" by simp
  show ?case
  proof (cases "n < 10")
    case True
    with b have "m < 10" using decimal_nonempty [of "m div 10"] by (auto simp: decimal_butlast split: if_splits)
    with True l show ?thesis by simp
  next
    case False
    with b have m: "\<not> m < 10" using decimal_nonempty [of "n div 10"] by (auto simp: decimal_butlast split: if_splits)
    with False b have "decimal (n div 10) = decimal (m div 10)" by (simp add: decimal_butlast)
    with 1(1) False have "n div 10 = m div 10" by simp
    with l show ?thesis by (metis div_mult_mod_eq)
  qed
qed

lemma startsWith_append: "startsWith (p @ s) p"
  by (induction p) simp_all

lemma normalizeArticleRef_art: "startsWith (normalizeArticleRef raw) (js ''art'')"
  by (simp add: normalizeArticleRef_def Let_def startsWith_append)

lemma buildArticles_keys:
  "p \<in> set (fst (buildArticles lines fin bs)) \<Longrightarrow> startsWith (provision_ref p) (js ''art'')"
  by (induction bs) (auto simp: Let_def provisionOf_def normalizeArticleRef_art split: if_splits)

lemma regular_keys:
  "p \<in> set (fst (extractArticlesFromText t)) \<Longrightarrow> startsWith (provision_ref p) (js ''art'')"
  unfolding extractArticlesFromText_def Let_def by (rule buildArticles_keys)

lemma buildTransitory_keys:
  "p \<in> set (buildTransitory lines i ps) \<Longrightarrow> \<exists>j\<ge>i. provision_ref p = js ''trans'' @ decimal (j + 1)"
proof (induction ps arbitrary: i)
  case Nil
  then show ?case by simp
next
  case (Cons q ps)
  from Cons.prems consider "provision_ref p = js ''trans'' @ decimal (i + 1)"
    | "p \<in> set (buildTransitory lines (i + 1) ps)"
    by (auto simp: Let_def transitoryOf_def split: if_splits)
  then show ?case
  proof cases
    case 1
    then show ?thesis by auto
  next
    case 2
    from Cons.IH [OF 2] obtain j where "i + 1 \<le> j" "provision_ref p = js ''trans'' @ decimal (j + 1)"
      by auto
    then show ?thesis by (intro exI [of _ j]) simp
  qed
qed

lemma buildTransitory_distinct: "distinct (map provision_ref (buildTransitory lines i ps))"
proof (induction ps arbitrary: i)
  case Nil
  then show ?case by simp
next
  case (Cons q ps)
  have fresh: "js ''trans'' @ decimal (i + 1) \<notin> provision_ref ` set (buildTransitory lines (i + 1) ps)"
  proof
    assume "js ''trans'' @ decimal (i + 1) \<in> provision_ref ` set (buildTransitory lines (i + 1) ps)"
    then obtain p where p: "p \<in> set (buildTransitory lines (i + 1) ps)"
      and e: "provision_ref p = js ''trans'' @ decimal (i + 1)" by auto
    from buildTransitory_keys [OF p] e obtain j where "i + 1 \<le> j" "decimal (j + 1) = decimal (i + 1)"
      by auto
    then show False using decimal_inj [of "j + 1" "i + 1"] by simp
  qed
  show ?case using Cons.IH [of "i + 1"] fresh
    by (auto simp: Let_def transitoryOf_def)
qed

lemma transitory_keys:
  "p \<in> set (extractTransitoryFromText t) \<Longrightarrow> \<not> startsWith (provision_ref p) (js ''art'')"
proof -
  assume "p \<in> set (extractTransitoryFromText t)"
  then obtain lines ps where "p \<in> set (buildTransitory lines 0 ps)"
    by (auto simp: extractTransitoryFromText_def Let_def split: option.splits)
  from buildTransitory_keys [OF this] show ?thesis by (auto simp: js_def)
qed

lemma transitory_distinct: "distinct (map provision_ref (extractTransitoryFromText t))"
  by (simp add: extractTransitoryFromText_def Let_def buildTransitory_distinct split: option.splits)

lemma apart:
  "set (map provision_ref (fst (extractArticlesFromText t)))
     \<inter> set (map provision_ref (extractTransitoryFromText t)) = {}"
  using regular_keys [of _ t] transitory_keys [of _ t] by fastforce

text \<open>
  Claim C3, amended. For every input text and law entry the provisions of
  \<open>parseMexicanText\<close> are the regular ones followed by the transitory ones; the transitory
  ones have pairwise distinct keys, none of them is the key of a regular provision, and so
  the keys of a law are pairwise distinct exactly when those of its regular provisions are.
  Two regular provisions share a key whenever their labels have the same normal form.
\<close>

theorem transitory_keys_never_collide:
  "provisions (parseMexicanText text law) = regular text @ transitory text \<and>
   distinct (map provision_ref (transitory text)) \<and>
   set (map provision_ref (regular text)) \<inter> set (map provision_ref (transitory text)) = {} \<and>
   distinct (map provision_ref (provisions (parseMexicanText text law)))
     = distinct (map provision_ref (regular text))"
proof -
  have a: "provisions (parseMexicanText text law) = regular text @ transitory text"
    by (simp add: parseMexicanText_def regular_def transitory_def emptyLaw_def Let_def)
  have b: "distinct (map provision_ref (transitory text))"
    by (simp add: transitory_def transitory_distinct)
  have c: "set (map provision_ref (regular text)) \<inter> set (map provision_ref (transitory text)) = {}"
    unfolding regular_def transitory_def using apart [of "cleanPdfText text"] by simp
  from a b c show ?thesis by simp
qed

theorem transitory_keys_never_collide_witness:
  "map provision_ref (transitory sampleLaw) = [js ''trans1'', js ''trans2''] \<and>
   distinct (map provision_ref (provisions (parseMexicanText sampleLaw law0)))"
proof -
  have r: "regular sampleLaw = fst (extractArticlesFromText sampleLaw)"
    by (simp add: regular_def sample_length sample_clean)
  have t: "transitory sampleLaw = extractTransitoryFromText sampleLaw"
    by (simp add: transitory_def sample_length sample_clean)
  have "distinct (map provision_ref (regular sampleLaw))"
    unfolding r sample_articles by (simp add: js_def)
  with transitory_keys_never_collide [of sampleLaw law0] show ?thesis
    unfolding t sample_transitory by simp
qed

section \<open>Cleaning\<close>

subsection \<open>Lines\<close>

lemma splitNL_nonempty: "splitNL s \<noteq> []"
  by (induction s) (auto split: list.splits)

lemma splitNL_Cons: "c \<noteq> 10 \<Longrightarrow> splitNL (c # cs) = (c # hd (splitNL cs)) # tl (splitNL cs)"
  using splitNL_nonempty [of cs] by (cases "splitNL cs") auto

lemma splitNL_newline: "splitNL (10 # cs) = [] # splitNL cs"
  by simp

lemma joinNL_Cons: "ls \<noteq> [] \<Longrightarrow> joinNL (l # ls) = l @ 10 # joinNL ls"
  by (cases ls) auto

lemma joinNL_splitNL: "joinNL (splitNL s) = s"
proof (induction s)
  case Nil
  show ?case by simp
next
  case (Cons c cs)
  show ?case
  proof (cases "c = 10")
    case True
    with Cons show ?thesis by (simp add: joinNL_Cons splitNL_nonempty)
  next
    case False
    obtain l ls where s: "splitNL cs = l # ls" using splitNL_nonempty [of cs] by (cases "splitNL cs") auto
    with Cons False show ?thesis by (cases ls) auto
  qed
qed

lemma splitNL_free: "l \<in> set (splitNL s) \<Longrightarrow> 10 \<notin> set l"
proof (induction s arbitrary: l)
  case Nil
  then show ?case by simp
next
  case (Cons c cs)
  obtain m ms where s: "splitNL cs = m # ms" using splitNL_nonempty [of cs] by (cases "splitNL cs") auto
  show ?case
  proof (cases "c = 10")
    case True
    with Cons show ?thesis by auto
  next
    case False
    with Cons.prems s have "l = c # m \<or> l \<in> set ms" by auto
    with Cons.IH s False show ?thesis by auto
  qed
qed

lemma splitNL_line: "10 \<notin> set l \<Longrightarrow> splitNL (l @ 10 # s) = l # splitNL s"
  by (induction l) auto

lemma splitNL_single: "10 \<notin> set l \<Longrightarrow> splitNL l = [l]"
  by (induction l) auto

lemma splitNL_joinNL:
  "ls \<noteq> [] \<Longrightarrow> \<forall>l\<in>set ls. 10 \<notin> set l \<Longrightarrow> splitNL (joinNL ls) = ls"
proof (induction ls rule: joinNL.induct)
  case 1
  then show ?case by simp
next
  case (2 l)
  then show ?case by (simp add: splitNL_single)
next
  case (3 l m ls)
  then show ?case by (simp add: splitNL_line)
qed

lemma joinNL_filter_split:
  assumes "\<forall>l\<in>set ls. 10 \<notin> set l"
  shows "joinNL (filter P (splitNL (joinNL ls))) = joinNL (filter P ls)"
proof (cases "ls = []")
  case True
  then show ?thesis by simp
next
  case False
  with assms show ?thesis by (simp add: splitNL_joinNL)
qed

subsection \<open>Runs of line breaks\<close>

lemma run_newlines:
  "rest st = s \<Longrightarrow>
   run False [R (Star True (Cls False [Ch 10]))] st
     = Some (st\<lparr>pos := pos st + newlines s,
                 prev := (if newlines s = 0 then prev st else Some 10),
                 rest := dropWhile (\<lambda>c. c = 10) s\<rparr>)"
proof (induction s arbitrary: st)
  case Nil
  then show ?case by (simp add: newlines_def)
next
  case (Cons c cs)
  show ?case
  proof (cases "c = 10")
    case False
    with Cons.prems show ?thesis by (simp add: newlines_def inSet_def eqc_def)
  next
    case True
    have "rest (step st c cs) = cs" by (simp add: step_def)
    from Cons.IH [OF this] Cons.prems True show ?thesis
      by (simp add: newlines_def inSet_def eqc_def step_def)
  qed
qed

lemma newlines_Suc: "(Suc n \<le> newlines s) = (\<exists>t. s = 10 # t \<and> n \<le> newlines t)"
  by (cases s) (auto simp: newlines_def)

lemma newlines_4: "(4 \<le> newlines s) = (\<exists>t. s = 10 # 10 # 10 # 10 # t)"
proof -
  have "(4 \<le> newlines s) = (Suc (Suc (Suc (Suc 0))) \<le> newlines s)" by arith
  also have "\<dots> = (\<exists>t. s = 10 # 10 # 10 # 10 # t)" by (simp only: newlines_Suc) auto
  finally show ?thesis .
qed

lemma run_blankRun:
  "run False [R blankRunRe] \<lparr>pos = p, prev = pv, rest = s, caps = []\<rparr>
     = (if 4 \<le> newlines s
        then Some \<lparr>pos = p + newlines s, prev = Some 10, rest = dropWhile (\<lambda>c. c = 10) s, caps = []\<rparr>
        else None)"
proof (cases "4 \<le> newlines s")
  case True
  then obtain t where s: "s = 10 # 10 # 10 # 10 # t" by (auto simp: newlines_4)
  have "run False [R blankRunRe] \<lparr>pos = p, prev = pv, rest = s, caps = []\<rparr>
        = run False [R (Star True (Cls False [Ch 10]))]
            \<lparr>pos = Suc (Suc (Suc (Suc p))), prev = Some 10, rest = t, caps = []\<rparr>"
    by (simp add: blankRunRe_def s eqc_def step_def del: run.simps(9))
  also have "\<dots> = Some \<lparr>pos = Suc (Suc (Suc (Suc p))) + newlines t, prev = Some 10,
                        rest = dropWhile (\<lambda>c. c = 10) t, caps = []\<rparr>"
    by (subst run_newlines [where s = t]) auto
  finally show ?thesis using True by (simp add: s newlines_def)
next
  case False
  have "run False [R blankRunRe] \<lparr>pos = p, prev = pv, rest = s, caps = []\<rparr> = None"
  proof (rule ccontr)
    assume "run False [R blankRunRe] \<lparr>pos = p, prev = pv, rest = s, caps = []\<rparr> \<noteq> None"
    then have "\<exists>t. s = 10 # 10 # 10 # 10 # t"
      by (auto simp: blankRunRe_def eqc_def step_def split: list.splits if_splits)
    with False show False by (simp add: newlines_4)
  qed
  with False show ?thesis by simp
qed

lemma drop_newlines: "drop (newlines s) s = dropWhile (\<lambda>c. c = 10) s"
  unfolding newlines_def by (simp add: dropWhile_eq_drop)

lemma replaceFrom_hit:
  assumes "4 \<le> newlines s"
  shows "replaceFrom False blankRunRe (\<lambda>m. [10, 10, 10]) p pv s
         = [10, 10, 10] @ replaceFrom False blankRunRe (\<lambda>m. [10, 10, 10]) (p + newlines s) (Some 10)
                            (dropWhile (\<lambda>c. c = 10) s)"
proof -
  from assms obtain c cs where s: "s = c # cs" by (cases s) (auto simp: newlines_def)
  define n where "n = newlines s"
  define D where "D = dropWhile (\<lambda>c. c = 10) s"
  have n: "4 \<le> n" using assms by (simp add: n_def)
  have "run False [R blankRunRe] \<lparr>pos = p, prev = pv, rest = s, caps = []\<rparr>
          = Some \<lparr>pos = p + n, prev = Some 10, rest = D, caps = []\<rparr>"
    using assms by (simp add: run_blankRun n_def D_def)
  then have r: "run False [R blankRunRe] \<lparr>pos = p, prev = pv, rest = c # cs, caps = []\<rparr>
          = Some \<lparr>pos = p + n, prev = Some 10, rest = D, caps = []\<rparr>"
    by (simp only: s)
  have "drop n s = D" by (simp add: n_def D_def drop_newlines)
  with n have d: "drop (n - Suc 0) cs = D" by (simp add: s drop_Cons' split: if_splits)
  have "replaceFrom False blankRunRe (\<lambda>m. [10, 10, 10]) p pv (c # cs)
         = [10, 10, 10] @ replaceFrom False blankRunRe (\<lambda>m. [10, 10, 10]) (p + n) (Some 10) D"
    using n by (simp add: r d)
  then show ?thesis by (simp only: s n_def D_def)
qed

lemma replaceFrom_miss:
  assumes "\<not> 4 \<le> newlines (c # cs)"
  shows "replaceFrom False blankRunRe (\<lambda>m. [10, 10, 10]) p pv (c # cs)
         = c # replaceFrom False blankRunRe (\<lambda>m. [10, 10, 10]) (p + 1) (Some c) cs"
proof -
  have "run False [R blankRunRe] \<lparr>pos = p, prev = pv, rest = c # cs, caps = []\<rparr> = None"
    using assms by (simp only: run_blankRun if_False)
  then show ?thesis by simp
qed

lemma replaceFrom_end: "replaceFrom False blankRunRe (\<lambda>m. [10, 10, 10]) p pv [] = []"
  by (simp add: run_blankRun newlines_def)

lemma replaceFrom_blankRun:
  "replaceFrom False blankRunRe (\<lambda>m. [10, 10, 10]) p pv s = collapseNL s"
proof (induction s arbitrary: p pv rule: collapseNL.induct)
  case (1 s)
  show ?case
  proof (cases "4 \<le> newlines s")
    case True
    have "collapseNL s = [10, 10, 10] @ collapseNL (dropWhile (\<lambda>c. c = 10) s)"
      using True by (subst collapseNL.simps) simp
    then show ?thesis
      unfolding replaceFrom_hit [OF True] 1(1) [OF True] by simp
  next
    case False
    show ?thesis
    proof (cases s)
      case Nil
      have "collapseNL [] = []" by (subst collapseNL.simps) (simp add: newlines_def)
      then show ?thesis by (simp only: Nil replaceFrom_end)
    next
      case (Cons c cs)
      from False have f: "\<not> 4 \<le> newlines (c # cs)" by (simp add: Cons)
      have "collapseNL (c # cs) = c # collapseNL cs"
        using f by (subst collapseNL.simps) simp
      then show ?thesis
        unfolding Cons replaceFrom_miss [OF f] 1(2) [OF False Cons] by simp
    qed
  qed
qed

lemma collapse_closed: "replaceAll False blankRunRe (\<lambda>m. [10, 10, 10]) s = collapseNL s"
  by (simp add: replaceAll_def replaceFrom_blankRun)

subsection \<open>The closed form of the last replacement\<close>

lemma newlines_Nil: "newlines [] = 0"
  by (simp add: newlines_def)

lemma newlines_Cons: "newlines (c # cs) = (if c = 10 then Suc (newlines cs) else 0)"
  by (simp add: newlines_def)

lemma newlines_dropWhile: "newlines (dropWhile (\<lambda>c. c = 10) s) = 0"
  by (induction s) (auto simp: newlines_Nil newlines_Cons)

lemma dropWhile_none: "newlines s = 0 \<Longrightarrow> dropWhile (\<lambda>c. c = 10) s = s"
  by (cases s) (auto simp: newlines_Cons split: if_splits)

lemma collapse_hit:
  "4 \<le> newlines s \<Longrightarrow> collapseNL s = 10 # 10 # 10 # collapseNL (dropWhile (\<lambda>c. c = 10) s)"
  by (subst collapseNL.simps) simp

lemma collapse_Nil: "collapseNL [] = []"
  by (subst collapseNL.simps) (simp add: newlines_Nil)

lemma collapse_Cons: "\<not> 4 \<le> newlines (c # cs) \<Longrightarrow> collapseNL (c # cs) = c # collapseNL cs"
  by (subst collapseNL.simps) simp

lemma newlines_collapse: "newlines (collapseNL s) = min 3 (newlines s)"
proof (induction s rule: collapseNL.induct)
  case (1 s)
  show ?case
  proof (cases "4 \<le> newlines s")
    case True
    with 1(1) [OF True] show ?thesis
      by (simp add: collapse_hit newlines_Cons newlines_dropWhile)
  next
    case False
    show ?thesis
    proof (cases s)
      case Nil
      then show ?thesis by (simp add: collapse_Nil newlines_Nil)
    next
      case (Cons c cs)
      from False have f: "\<not> 4 \<le> newlines (c # cs)" by (simp add: Cons)
      from 1(2) [OF False Cons] f show ?thesis
        unfolding Cons collapse_Cons [OF f] by (auto simp: newlines_Cons split: if_splits)
    qed
  qed
qed

lemma collapse_three:
  assumes "newlines x = 0"
  shows "collapseNL (10 # 10 # 10 # x) = 10 # 10 # 10 # collapseNL x"
proof -
  have a: "\<not> 4 \<le> newlines (10 # 10 # 10 # x)" using assms by (simp add: newlines_Cons)
  have b: "\<not> 4 \<le> newlines (10 # 10 # x)" using assms by (simp add: newlines_Cons)
  have c: "\<not> 4 \<le> newlines (10 # x)" using assms by (simp add: newlines_Cons)
  show ?thesis by (simp only: collapse_Cons [OF a] collapse_Cons [OF b] collapse_Cons [OF c])
qed

lemma collapse_idem: "collapseNL (collapseNL s) = collapseNL s"
proof (induction s rule: collapseNL.induct)
  case (1 s)
  show ?case
  proof (cases "4 \<le> newlines s")
    case True
    have "newlines (collapseNL (dropWhile (\<lambda>c. c = 10) s)) = 0"
      by (simp add: newlines_collapse newlines_dropWhile)
    from collapse_three [OF this] 1(1) [OF True] show ?thesis
      by (simp add: collapse_hit [OF True])
  next
    case False
    show ?thesis
    proof (cases s)
      case Nil
      then show ?thesis by (simp add: collapse_Nil)
    next
      case (Cons c cs)
      from False have f: "\<not> 4 \<le> newlines (c # cs)" by (simp add: Cons)
      then have g: "\<not> 4 \<le> newlines (c # collapseNL cs)"
        by (auto simp: newlines_Cons newlines_collapse split: if_splits)
      from 1(2) [OF False Cons] show ?thesis
        unfolding Cons collapse_Cons [OF f] collapse_Cons [OF g] by simp
    qed
  qed
qed

lemma filter_split_cong:
  assumes "hd (splitNL a) = hd (splitNL b)"
    and "filter P (tl (splitNL a)) = filter P (tl (splitNL b))"
  shows "filter P (splitNL a) = filter P (splitNL b)"
proof -
  have "splitNL a = hd (splitNL a) # tl (splitNL a)" "splitNL b = hd (splitNL b) # tl (splitNL b)"
    by (simp_all add: splitNL_nonempty)
  then have "filter P (splitNL a) = filter P (hd (splitNL a) # tl (splitNL a))"
    "filter P (splitNL b) = filter P (hd (splitNL b) # tl (splitNL b))" by simp_all
  with assms show ?thesis by simp
qed

lemma split_newlines:
  "0 < newlines s \<Longrightarrow>
   hd (splitNL s) = [] \<and>
   filter (\<lambda>l. l \<noteq> []) (tl (splitNL s)) = filter (\<lambda>l. l \<noteq> []) (splitNL (dropWhile (\<lambda>c. c = 10) s))"
proof (induction s)
  case Nil
  then show ?case by (simp add: newlines_Nil)
next
  case (Cons c cs)
  from Cons.prems have c: "c = 10" by (simp add: newlines_Cons split: if_splits)
  show ?case
  proof (cases "newlines cs = 0")
    case True
    then show ?thesis by (simp add: c dropWhile_none)
  next
    case False
    with Cons.IH have h: "hd (splitNL cs) = []"
      and t: "filter (\<lambda>l. l \<noteq> []) (tl (splitNL cs))
              = filter (\<lambda>l. l \<noteq> []) (splitNL (dropWhile (\<lambda>c. c = 10) cs))" by simp_all
    have "splitNL cs = hd (splitNL cs) # tl (splitNL cs)" by (simp add: splitNL_nonempty)
    then have "filter (\<lambda>l. l \<noteq> []) (splitNL cs)
               = filter (\<lambda>l. l \<noteq> []) (hd (splitNL cs) # tl (splitNL cs))" by simp
    with h t show ?thesis by (simp add: c)
  qed
qed

lemma lines_collapse:
  "hd (splitNL (collapseNL s)) = hd (splitNL s) \<and>
   filter (\<lambda>l. l \<noteq> []) (tl (splitNL (collapseNL s))) = filter (\<lambda>l. l \<noteq> []) (tl (splitNL s))"
proof (induction s rule: collapseNL.induct)
  case (1 s)
  show ?case
  proof (cases "4 \<le> newlines s")
    case True
    let ?d = "dropWhile (\<lambda>c. c = 10) s"
    from True have "0 < newlines s" by simp
    from split_newlines [OF this] have h: "hd (splitNL s) = []"
      and t: "filter (\<lambda>l. l \<noteq> []) (tl (splitNL s)) = filter (\<lambda>l. l \<noteq> []) (splitNL ?d)" by simp_all
    from 1(1) [OF True] have "filter (\<lambda>l. l \<noteq> []) (splitNL (collapseNL ?d)) = filter (\<lambda>l. l \<noteq> []) (splitNL ?d)"
      by (intro filter_split_cong) simp_all
    with h t show ?thesis by (simp add: collapse_hit [OF True])
  next
    case False
    show ?thesis
    proof (cases s)
      case Nil
      then show ?thesis by (simp add: collapse_Nil)
    next
      case (Cons c cs)
      from False have f: "\<not> 4 \<le> newlines (c # cs)" by (simp add: Cons)
      note ih = 1(2) [OF False Cons]
      show ?thesis
      proof (cases "c = 10")
        case True
        from ih have "filter (\<lambda>l. l \<noteq> []) (splitNL (collapseNL cs)) = filter (\<lambda>l. l \<noteq> []) (splitNL cs)"
          by (intro filter_split_cong) simp_all
        then show ?thesis unfolding Cons collapse_Cons [OF f] by (simp add: True)
      next
        case False
        with ih show ?thesis
          unfolding Cons collapse_Cons [OF f] by (simp add: splitNL_Cons del: splitNL.simps)
      qed
    qed
  qed
qed

lemma nonempty_lines_collapse:
  "filter (\<lambda>l. l \<noteq> []) (splitNL (collapseNL s)) = filter (\<lambda>l. l \<noteq> []) (splitNL s)"
  using lines_collapse [of s] by (intro filter_split_cong) simp_all

subsection \<open>The lines that are kept\<close>

lemma trim_Nil: "trim [] = []"
  by (simp add: trim_def)

lemma cleanLines_free:
  "\<forall>l\<in>set ls. 10 \<notin> set l \<Longrightarrow> \<forall>l\<in>set (cleanLines ls). 10 \<notin> set l"
  by (induction ls) auto

lemma cleanLines_kept:
  "l \<in> set (cleanLines ls) \<Longrightarrow> l = [] \<or> (trim l \<noteq> [] \<and> \<not> skipLine (trim l))"
  by (induction ls) (auto split: if_splits)

lemma cleanLines_id:
  "\<forall>l\<in>set ls. l = [] \<or> (trim l \<noteq> [] \<and> \<not> skipLine (trim l)) \<Longrightarrow> cleanLines ls = ls"
  by (induction ls) (auto simp: trim_Nil)

subsection \<open>The table of the lines in capitals\<close>

lemma bumpCount_map_of:
  "map_of (bumpCount m k) = (map_of m)(k \<mapsto> (case map_of m k of None \<Rightarrow> 1 | Some n \<Rightarrow> n + 1))"
  by (induction m k rule: bumpCount.induct) (auto simp: fun_eq_iff)

lemma bumpCount_keys: "fst ` set (bumpCount m k) = insert k (fst ` set m)"
  by (induction m k rule: bumpCount.induct) auto

lemma bumpCount_distinct: "distinct (map fst m) \<Longrightarrow> distinct (map fst (bumpCount m k))"
proof (induction m k rule: bumpCount.induct)
  case (1 k)
  then show ?case by simp
next
  case (2 k' n m k)
  then show ?case using bumpCount_keys [of m k] by (auto simp: rev_image_eqI)
qed

lemma capsCount_Nil: "capsCount [] k = 0"
  by (simp add: capsCount_def)

lemma capsCount_Cons:
  "capsCount (l # ls) k = (if isCapsLine (trim l) \<and> trim l = k then 1 else 0) + capsCount ls k"
  by (auto simp: capsCount_def)

lemma capsLineCount_distinct:
  "distinct (map fst m) \<Longrightarrow> distinct (map fst (capsLineCount m ls))"
  by (induction ls arbitrary: m) (simp_all add: bumpCount_distinct)

lemma capsLineCount_map_of:
  "map_of (capsLineCount m ls) k
     = (case map_of m k of
          None \<Rightarrow> (if capsCount ls k = 0 then None else Some (capsCount ls k))
        | Some n \<Rightarrow> Some (n + capsCount ls k))"
proof (induction ls arbitrary: m)
  case Nil
  then show ?case by (simp add: capsCount_Nil split: option.splits)
next
  case (Cons l ls)
  show ?case
    by (auto simp: Cons.IH capsCount_Cons bumpCount_map_of split: option.splits)
qed

lemma heavy_line:
  "(\<exists>c. (k, c) \<in> set (capsLineCount [] ls) \<and> 5 \<le> c) = (5 \<le> capsCount ls k)"
proof -
  have d: "distinct (map fst (capsLineCount [] ls))" by (rule capsLineCount_distinct) simp
  have "(\<exists>c. (k, c) \<in> set (capsLineCount [] ls) \<and> 5 \<le> c)
        = (\<exists>c. map_of (capsLineCount [] ls) k = Some c \<and> 5 \<le> c)"
    using d by simp
  also have "\<dots> = (5 \<le> capsCount ls k)"
    by (auto simp: capsLineCount_map_of split: if_splits)
  finally show ?thesis .
qed

lemma removeRepeated_lines:
  "\<forall>l\<in>set ls. 10 \<notin> set l \<Longrightarrow>
   removeRepeated (joinNL ls) es
     = joinNL (filter (\<lambda>l. \<forall>e\<in>set es. 5 \<le> snd e \<longrightarrow> trim l \<noteq> fst e) ls)"
proof (induction es arbitrary: ls)
  case Nil
  then show ?case by simp
next
  case (Cons e es)
  obtain k c where e: "e = (k, c)" by (cases e)
  show ?case
  proof (cases "5 \<le> c")
    case True
    have f: "\<forall>l\<in>set (filter (\<lambda>l. trim l \<noteq> k) ls). 10 \<notin> set l" using Cons.prems by simp
    have "removeRepeated (joinNL ls) (e # es)
          = removeRepeated (joinNL (filter (\<lambda>l. trim l \<noteq> k) ls)) es"
      using True Cons.prems by (simp add: e joinNL_filter_split)
    also have "\<dots> = joinNL (filter (\<lambda>l. \<forall>e\<in>set es. 5 \<le> snd e \<longrightarrow> trim l \<noteq> fst e)
                                (filter (\<lambda>l. trim l \<noteq> k) ls))"
      by (rule Cons.IH [OF f])
    also have "\<dots> = joinNL (filter (\<lambda>l. \<forall>e\<in>set (e # es). 5 \<le> snd e \<longrightarrow> trim l \<noteq> fst e) ls)"
      using True by (simp add: e conj_commute)
    finally show ?thesis .
  next
    case False
    then show ?thesis using Cons.IH [OF Cons.prems] by (simp add: e)
  qed
qed

lemma removeRepeated_counts:
  assumes "\<forall>l\<in>set ls. 10 \<notin> set l"
  shows "removeRepeated (joinNL ls) (capsLineCount [] ls)
         = joinNL (filter (\<lambda>l. capsCount ls (trim l) < 5) ls)"
proof -
  have "(\<forall>e\<in>set (capsLineCount [] ls). 5 \<le> snd e \<longrightarrow> trim l \<noteq> fst e) = (capsCount ls (trim l) < 5)" for l
    using heavy_line [of "trim l" ls] by (auto simp: not_le [symmetric])
  then show ?thesis by (simp add: removeRepeated_lines [OF assms])
qed

lemma cleanPdfText_lines:
  "cleanPdfText t =
     collapseNL (joinNL (filter (\<lambda>l. capsCount (cleanLines (splitNL t)) (trim l) < 5)
                                (cleanLines (splitNL t))))"
proof -
  have "\<forall>l\<in>set (cleanLines (splitNL t)). 10 \<notin> set l"
    by (rule cleanLines_free) (simp add: splitNL_free)
  then show ?thesis
    by (simp add: cleanPdfText_def Let_def removeRepeated_counts collapse_closed)
qed

lemma nonempty_lines_join:
  "\<forall>l\<in>set ls. 10 \<notin> set l \<Longrightarrow>
   filter (\<lambda>l. l \<noteq> []) (splitNL (joinNL ls)) = filter (\<lambda>l. l \<noteq> []) ls"
  by (cases "ls = []") (simp_all add: splitNL_joinNL)

lemma capsCount_nonempty: "capsCount (filter (\<lambda>l. l \<noteq> []) ls) k = capsCount ls k"
proof -
  have "\<not> isCapsLine (trim [])" by (simp add: trim_Nil isCapsLine_def)
  then have "(isCapsLine (trim l) \<and> trim l = k \<and> l \<noteq> []) = (isCapsLine (trim l) \<and> trim l = k)" for l
    by auto
  then show ?thesis by (simp add: capsCount_def conj_commute conj_left_commute)
qed

lemma capsCount_light:
  "capsCount (filter (\<lambda>l. capsCount ls (trim l) < 5) ls) k < 5"
proof -
  have "capsCount (filter (\<lambda>l. capsCount ls (trim l) < 5) ls) k
        = length (filter (\<lambda>l. capsCount ls k < 5 \<and> isCapsLine (trim l) \<and> trim l = k) ls)"
    unfolding capsCount_def filter_filter by (rule arg_cong [where f = length], rule filter_cong) auto
  also have "\<dots> = (if capsCount ls k < 5 then capsCount ls k else 0)"
    by (simp add: capsCount_def)
  finally show ?thesis by simp
qed

subsection \<open>Cleaning twice\<close>

text \<open>
  Claim C6. \<open>cleanPdfText\<close> is idempotent: what it returns, it returns unchanged.
\<close>

theorem cleanPdfText_idempotent: "cleanPdfText (cleanPdfText t) = cleanPdfText t"
proof -
  define C where "C = cleanLines (splitNL t)"
  define K where "K = filter (\<lambda>l. capsCount C (trim l) < 5) C"
  define out where "out = collapseNL (joinNL K)"
  define L where "L = splitNL out"
  have out: "cleanPdfText t = out"
    by (simp add: cleanPdfText_lines C_def K_def out_def)
  have freeC: "\<forall>l\<in>set C. 10 \<notin> set l"
    unfolding C_def by (rule cleanLines_free) (simp add: splitNL_free)
  then have freeK: "\<forall>l\<in>set K. 10 \<notin> set l" by (simp add: K_def)
  have ne: "filter (\<lambda>l. l \<noteq> []) L = filter (\<lambda>l. l \<noteq> []) K"
    by (simp add: L_def out_def nonempty_lines_collapse nonempty_lines_join [OF freeK])
  have kept: "l = [] \<or> (trim l \<noteq> [] \<and> \<not> skipLine (trim l))" if "l \<in> set L" for l
  proof (cases "l = []")
    case True
    then show ?thesis by simp
  next
    case False
    with that have "l \<in> set (filter (\<lambda>l. l \<noteq> []) L)" by simp
    then have "l \<in> set K" unfolding ne by simp
    then have "l \<in> set (cleanLines (splitNL t))" by (simp add: K_def C_def)
    then show ?thesis by (rule cleanLines_kept)
  qed
  then have clean: "cleanLines L = L" by (intro cleanLines_id) blast
  have "capsCount L k = capsCount K k" for k
    using capsCount_nonempty [of L k] capsCount_nonempty [of K k] by (simp add: ne)
  then have light: "capsCount L k < 5" for k
    by (simp add: K_def capsCount_light)
  have "cleanPdfText out = collapseNL (joinNL (filter (\<lambda>l. capsCount L (trim l) < 5) L))"
    by (simp add: cleanPdfText_lines L_def [symmetric] clean)
  also have "\<dots> = collapseNL (joinNL L)" by (simp add: light)
  also have "\<dots> = collapseNL out" by (simp add: L_def joinNL_splitNL)
  also have "\<dots> = out" by (simp add: out_def collapse_idem)
  finally show ?thesis by (simp add: out)
qed

end
